theory Spec2Isabelle
  imports Main
begin

section \<open>Python strings and the regular-expression character classes\<close>

text \<open>
  A Python \<^verbatim>\<open>str\<close> is modelled as a \<^typ>\<open>string\<close>; a \<^typ>\<open>char\<close> stands for the code
  point with the same number, so the model covers the documents whose code points are
  below 256. The classes below are those of Python 3 on that range: \<^verbatim>\<open>str.isspace\<close>
  and the pattern class \<^verbatim>\<open>\s\<close> agree, \<^verbatim>\<open>\w\<close> is \<^verbatim>\<open>str.isalnum\<close> or the underscore,
  \<^verbatim>\<open>\d\<close> is the decimal digits.
\<close>

definition code_point :: "char \<Rightarrow> nat" where
  "code_point c = of_char c"

definition isspace :: "char \<Rightarrow> bool" where
  "isspace c = (let n = code_point c in
     (9 \<le> n \<and> n \<le> 13) \<or> (28 \<le> n \<and> n \<le> 32) \<or> n = 133 \<or> n = 160)"

definition isdigit :: "char \<Rightarrow> bool" where
  "isdigit c = (let n = code_point c in 48 \<le> n \<and> n \<le> 57)"

definition is_word :: "char \<Rightarrow> bool" where
  "is_word c = (let n = code_point c in
     (48 \<le> n \<and> n \<le> 57) \<or> (65 \<le> n \<and> n \<le> 90) \<or> n = 95 \<or> (97 \<le> n \<and> n \<le> 122) \<or>
     n = 170 \<or> n = 178 \<or> n = 179 \<or> n = 181 \<or> n = 185 \<or> n = 186 \<or>
     (188 \<le> n \<and> n \<le> 190) \<or> (192 \<le> n \<and> n \<le> 214) \<or> (216 \<le> n \<and> n \<le> 246) \<or>
     (248 \<le> n \<and> n \<le> 255))"

definition lower_char :: "char \<Rightarrow> char" where
  "lower_char c = (let n = code_point c in
     if (65 \<le> n \<and> n \<le> 90) \<or> (192 \<le> n \<and> n \<le> 222 \<and> n \<noteq> 215)
     then char_of (n + 32) else c)"

definition lower :: "string \<Rightarrow> string" where
  "lower s = map lower_char s"

definition lstrip :: "string \<Rightarrow> string" where
  "lstrip s = dropWhile isspace s"

definition rstrip :: "string \<Rightarrow> string" where
  "rstrip s = rev (dropWhile isspace (rev s))"

definition strip :: "string \<Rightarrow> string" where
  "strip s = rstrip (lstrip s)"

definition rstrip_char :: "char \<Rightarrow> string \<Rightarrow> string" where
  "rstrip_char c s = rev (dropWhile (\<lambda>d. d = c) (rev s))"

definition startswith :: "string \<Rightarrow> string \<Rightarrow> bool" where
  "startswith s p = (take (length p) s = p)"

definition endswith :: "string \<Rightarrow> string \<Rightarrow> bool" where
  "endswith s p = (length p \<le> length s \<and> drop (length s - length p) s = p)"

text \<open>\<^verbatim>\<open>s.split(sep)\<close> for a one-character separator: never an empty list.\<close>

fun split_char :: "char \<Rightarrow> string \<Rightarrow> string list" where
  "split_char sep [] = [[]]"
| "split_char sep (c # cs) =
     (if c = sep then [] # split_char sep cs
      else (case split_char sep cs of
              [] \<Rightarrow> [[c]]
            | w # ws \<Rightarrow> (c # w) # ws))"

text \<open>
  \<^verbatim>\<open>s.count(sub)\<close>: the occurrences of \<open>sub\<close> found from left to right without overlap.
  The counter of \<open>count_from\<close> is the number of characters still covered by the last
  occurrence found.
\<close>

fun count_from :: "string \<Rightarrow> nat \<Rightarrow> string \<Rightarrow> nat" where
  "count_from sub k [] = 0"
| "count_from sub (Suc k) (c # cs) = count_from sub k cs"
| "count_from sub 0 (c # cs) =
     (if startswith (c # cs) sub then Suc (count_from sub (length sub - 1) cs)
      else count_from sub 0 cs)"

definition str_count :: "string \<Rightarrow> string \<Rightarrow> nat" where
  "str_count s sub = (if sub = [] then Suc (length s) else count_from sub 0 s)"

text \<open>\<^verbatim>\<open>str(n)\<close> of a non-negative integer, as the f-strings print it.\<close>

definition digit_char :: "nat \<Rightarrow> char" where
  "digit_char d = char_of (48 + d)"

function str_nat :: "nat \<Rightarrow> string" where
  "str_nat n = (if n < 10 then [digit_char n] else str_nat (n div 10) @ [digit_char (n mod 10)])"
  by pat_completeness auto
termination
  by (relation "measure id") auto

text \<open>
  The anchor \<^verbatim>\<open>$\<close> (without the MULTILINE flag) holds at the end of the string and just
  before a newline that ends the string. \<open>at_end r\<close> is that test on the rest \<open>r\<close> of the
  subject at the current position.
\<close>

definition newline :: char where
  "newline = CHR 0x0A"

definition at_end :: "string \<Rightarrow> bool" where
  "at_end r = (r = [] \<or> r = [newline])"

text \<open>
  The subscript \<^verbatim>\<open>xs[i]\<close>: positions \<open>0\<close> to \<open>len(xs) - 1\<close> read from the front, positions
  \<open>-len(xs)\<close> to \<open>-1\<close> read from the back, every other position raises.
\<close>

datatype py_error = IndexError

definition py_index :: "'a list \<Rightarrow> int \<Rightarrow> py_error + 'a" where
  "py_index xs i =
     (if 0 \<le> i \<and> i < int (length xs) then Inr (xs ! nat i)
      else if i < 0 \<and> - int (length xs) \<le> i then Inr (xs ! nat (int (length xs) + i))
      else Inl IndexError)"

section \<open>Issues\<close>

record ValidationIssue =
  line_number :: nat
  issue_type :: string
  severity :: string
  description :: string
  original_text :: string
  suggested_fix :: string

section \<open>Code Block Checker: \<^verbatim>\<open>validate_code_blocks\<close>\<close>

text \<open>
  \<^verbatim>\<open>re.match(r'^(`{3,}|~{3,})(\w*)$', s)\<close>. The result is the first character of group 1,
  the length of group 1 and group 2. The run of fence characters is taken whole: a fence
  character is no word character, so a shorter run leaves one that \<^verbatim>\<open>\w*\<close> cannot pass.
\<close>

definition fence_match :: "string \<Rightarrow> (char \<times> nat \<times> string) option" where
  "fence_match s =
     (case s of
        [] \<Rightarrow> None
      | c # _ \<Rightarrow>
          if c = CHR 0x60 \<or> c = CHR ''~'' then
            (let run = takeWhile (\<lambda>d. d = c) s;
                 rest = dropWhile (\<lambda>d. d = c) s;
                 tag = takeWhile is_word rest
             in if 3 \<le> length run \<and> at_end (dropWhile is_word rest)
                then Some (c, length run, tag) else None)
          else None)"

record fence_state =
  in_fenced_block :: bool
  block_start_line :: nat
  fence_char :: "char option"
  fence_count :: nat

definition initial_fence_state :: fence_state where
  "initial_fence_state =
     \<lparr>in_fenced_block = False, block_start_line = 0, fence_char = None, fence_count = 0\<rparr>"

text \<open>The fence part of the loop body, for line \<open>i\<close>.\<close>

definition fence_step :: "nat \<Rightarrow> string \<Rightarrow> fence_state \<Rightarrow> fence_state" where
  "fence_step i line st =
     (case fence_match (strip line) of
        None \<Rightarrow> st
      | Some (current_char, current_count, tag) \<Rightarrow>
          if \<not> in_fenced_block st then
            st\<lparr>in_fenced_block := True, block_start_line := i,
               fence_char := Some current_char, fence_count := current_count\<rparr>
          else if Some current_char = fence_char st \<and> fence_count st \<le> current_count then
            st\<lparr>in_fenced_block := False, fence_char := None\<rparr>
          else st)"

text \<open>The inline-code part of the loop body, run on the state the fence part left.\<close>

definition backtick_issues :: "nat \<Rightarrow> string \<Rightarrow> fence_state \<Rightarrow> ValidationIssue list" where
  "backtick_issues i line st =
     (if \<not> in_fenced_block st then
        (let backtick_count = int (str_count line [CHR 0x60]);
             triple_count = int (str_count line [CHR 0x60, CHR 0x60, CHR 0x60]);
             single_count = backtick_count - triple_count * 3
         in if single_count mod 2 \<noteq> 0
               \<and> \<not> startswith (strip line) [CHR 0x60, CHR 0x60, CHR 0x60]
            then [\<lparr>line_number = i, issue_type = ''unmatched_backticks'',
                   severity = ''warning'',
                   description = ''Possible unmatched inline code backticks'',
                   original_text = line,
                   suggested_fix = ''Ensure backticks are properly paired''\<rparr>]
            else [])
      else [])"

fun code_blocks_loop ::
  "nat \<Rightarrow> fence_state \<Rightarrow> string list \<Rightarrow> fence_state \<times> ValidationIssue list" where
  "code_blocks_loop i st [] = (st, [])"
| "code_blocks_loop i st (line # rest) =
     (let st1 = fence_step i line st;
          out1 = backtick_issues i line st1;
          (st2, out2) = code_blocks_loop (Suc i) st1 rest
      in (st2, out1 @ out2))"

definition unclosed_issue :: "fence_state \<Rightarrow> string \<Rightarrow> ValidationIssue" where
  "unclosed_issue st opening =
     \<lparr>line_number = block_start_line st, issue_type = ''unclosed_code_block'',
      severity = ''error'', description = ''Unclosed fenced code block'',
      original_text = opening,
      suggested_fix = ''Add closing fence: '' @
        (if fence_char st = Some (CHR 0x60) then replicate (fence_count st) (CHR 0x60)
         else replicate (fence_count st) (CHR ''~''))\<rparr>"

definition validate_code_blocks :: "string list \<Rightarrow> py_error + ValidationIssue list" where
  "validate_code_blocks lines =
     (let (st, out) = code_blocks_loop 1 initial_fence_state lines
      in if in_fenced_block st then
           (case py_index lines (int (block_start_line st) - 1) of
              Inl e \<Rightarrow> Inl e
            | Inr opening \<Rightarrow> Inr (out @ [unclosed_issue st opening]))
         else Inr out)"

text \<open>The fence state after the loop has scanned \<open>lines\<close>, numbered from 1.\<close>

definition fence_state_after :: "string list \<Rightarrow> fence_state" where
  "fence_state_after lines = fst (code_blocks_loop 1 initial_fence_state lines)"

definition loop_issues :: "string list \<Rightarrow> ValidationIssue list" where
  "loop_issues lines = snd (code_blocks_loop 1 initial_fence_state lines)"

text \<open>
  A fence line in the words of the specification: the trimmed line is \<open>n\<close> copies, three
  or more, of one fence character \<open>c\<close>, then an optional language tag.
\<close>

definition spec_fence_line :: "string \<Rightarrow> char \<Rightarrow> nat \<Rightarrow> bool" where
  "spec_fence_line line c n =
     ((c = CHR 0x60 \<or> c = CHR ''~'') \<and> 3 \<le> n \<and> n \<le> length (strip line) \<and>
      take n (strip line) = replicate n c \<and> list_all is_word (drop n (strip line)))"

section \<open>Pattern matching helpers\<close>

text \<open>
  \<^verbatim>\<open>(.*)$\<close> at the current position, \<open>r\<close> being the rest of the subject: the dot does not
  pass a newline, so the group is the run up to the first newline, and a shorter run
  never ends where \<^verbatim>\<open>$\<close> holds. \<open>dots_plus\<close> is \<^verbatim>\<open>(.+)$\<close>.
\<close>

definition dots_to_end :: "string \<Rightarrow> string option" where
  "dots_to_end r =
     (if at_end (dropWhile (\<lambda>c. c \<noteq> newline) r)
      then Some (takeWhile (\<lambda>c. c \<noteq> newline) r) else None)"

definition dots_plus :: "string \<Rightarrow> string option" where
  "dots_plus r =
     (case dots_to_end r of
        None \<Rightarrow> None
      | Some g \<Rightarrow> if g = [] then None else Some g)"

text \<open>
  A greedy run of white space before \<open>f\<close>, with backtracking: \<open>f\<close> is tried after \<open>k\<close>
  characters of the run, then \<open>k - 1\<close>, down to \<open>lo\<close>.
\<close>

fun try_down :: "(string \<Rightarrow> 'a option) \<Rightarrow> nat \<Rightarrow> nat \<Rightarrow> string \<Rightarrow> 'a option" where
  "try_down f lo k r =
     (if k < lo then None
      else (case f (drop k r) of
              Some g \<Rightarrow> Some g
            | None \<Rightarrow> (case k of 0 \<Rightarrow> None | Suc j \<Rightarrow> try_down f lo j r)))"

definition spaces_then :: "(string \<Rightarrow> 'a option) \<Rightarrow> nat \<Rightarrow> string \<Rightarrow> 'a option" where
  "spaces_then f lo r = try_down f lo (length (takeWhile isspace r)) r"

text \<open>
  \<open>bracketed l r s\<close>: \<open>s\<close> starts with \<open>l\<close>, then a greedy run without \<open>r\<close>, then \<open>r\<close>; the result
  is the run and what follows the closing \<open>r\<close>. A shorter run is followed by a character
  other than \<open>r\<close>, so the greedy run is the only one that matches.
\<close>

definition bracketed :: "char \<Rightarrow> char \<Rightarrow> string \<Rightarrow> (string \<times> string) option" where
  "bracketed l r s =
     (case s of
        [] \<Rightarrow> None
      | c # cs \<Rightarrow>
          if c = l then
            (case dropWhile (\<lambda>d. d \<noteq> r) cs of
               [] \<Rightarrow> None
             | d # rest \<Rightarrow> Some (takeWhile (\<lambda>d. d \<noteq> r) cs, rest))
          else None)"

text \<open>
  \<^verbatim>\<open>pattern.finditer(s)\<close> for a pattern whose matches are not empty: the matches from left
  to right without overlap, each with its start position. \<open>m\<close> tries the pattern at the
  head of its argument and returns the groups and the length of the match; the counter is
  the number of characters still covered by the last match.
\<close>

fun scan_from :: "(string \<Rightarrow> ('a \<times> nat) option) \<Rightarrow> nat \<Rightarrow> nat \<Rightarrow> string \<Rightarrow> (nat \<times> 'a) list" where
  "scan_from m pos k [] = []"
| "scan_from m pos (Suc k) (c # cs) = scan_from m (Suc pos) k cs"
| "scan_from m pos 0 (c # cs) =
     (case m (c # cs) of
        None \<Rightarrow> scan_from m (Suc pos) 0 cs
      | Some (g, n) \<Rightarrow> (pos, g) # scan_from m (Suc pos) (n - 1) cs)"

definition finditer :: "(string \<Rightarrow> ('a \<times> nat) option) \<Rightarrow> string \<Rightarrow> (nat \<times> 'a) list" where
  "finditer m s = scan_from m 0 0 s"

section \<open>Header Checker: \<^verbatim>\<open>validate_headers\<close>\<close>

text \<open>
  \<^verbatim>\<open>re.compile(r'^(#{1,6})\s*(.*)$').match(line)\<close>: groups 1 and 2. Fewer hashes than the
  greedy run (at most six) cannot match where the greedy run does not: the rest then
  starts with a hash and holds the same newlines.
\<close>

definition header_match :: "string \<Rightarrow> (string \<times> string) option" where
  "header_match line =
     (let hashes = take 6 (takeWhile (\<lambda>c. c = CHR ''#'') line)
      in if hashes = [] then None
         else (case spaces_then dots_to_end 0 (drop (length hashes) line) of
                 None \<Rightarrow> None
               | Some g \<Rightarrow> Some (hashes, g)))"

definition header_line_issues :: "nat \<Rightarrow> nat \<Rightarrow> string \<Rightarrow> ValidationIssue list" where
  "header_line_issues i prev_level line =
     (case header_match line of
        None \<Rightarrow> []
      | Some (hashes, g) \<Rightarrow>
          (let text = strip g; level = length hashes
           in (if take 1 (drop (length hashes) line) \<noteq> '' '' \<and> text \<noteq> []
               then [\<lparr>line_number = i, issue_type = ''header_format'', severity = ''warning'',
                      description = ''Missing space after header hashes'',
                      original_text = line, suggested_fix = hashes @ '' '' @ text\<rparr>]
               else []) @
              (if text = []
               then [\<lparr>line_number = i, issue_type = ''empty_header'', severity = ''warning'',
                      description = ''Empty header text'',
                      original_text = line, suggested_fix = ''Add descriptive header text''\<rparr>]
               else []) @
              (if 0 < prev_level \<and> prev_level + 1 < level
               then [\<lparr>line_number = i, issue_type = ''header_hierarchy'', severity = ''info'',
                      description = ''Header level skipped from H'' @ str_nat prev_level @
                                    '' to H'' @ str_nat level,
                      original_text = line,
                      suggested_fix = replicate (prev_level + 1) (CHR ''#'') @ '' '' @ text\<rparr>]
               else []) @
              (if endswith text ''#''
               then [\<lparr>line_number = i, issue_type = ''trailing_hashes'', severity = ''info'',
                      description = ''Trailing hashes in header (not recommended)'',
                      original_text = line,
                      suggested_fix = hashes @ '' '' @ rstrip (rstrip_char (CHR ''#'') text)\<rparr>]
               else [])))"

fun headers_loop :: "nat \<Rightarrow> nat \<Rightarrow> string list \<Rightarrow> ValidationIssue list" where
  "headers_loop i prev_level [] = []"
| "headers_loop i prev_level (line # rest) =
     header_line_issues i prev_level line @
     headers_loop (Suc i)
       (case header_match line of None \<Rightarrow> prev_level | Some (hashes, g) \<Rightarrow> length hashes) rest"

definition validate_headers :: "string list \<Rightarrow> ValidationIssue list" where
  "validate_headers lines = headers_loop 1 0 lines"

section \<open>The environment\<close>

text \<open>
  The file system, the path functions of the operating system, \<^verbatim>\<open>urlparse\<close> and the HTTP
  request are not code of the validator: they are the fields of an environment, which
  every theorem leaves arbitrary. \<open>read_file\<close> is \<^verbatim>\<open>open(path, 'r', encoding='utf-8')\<close>
  followed by \<^verbatim>\<open>f.read()\<close>; \<open>base_dir_of\<close> is
  \<^verbatim>\<open>os.path.dirname(os.path.abspath(file_path))\<close>; \<open>urlparse\<close> gives the scheme and the
  network location, or nothing when it raises.
\<close>

datatype read_result = Loaded string | FileNotFound | ReadFailed string

datatype head_result = Response int | Timeout | RequestFailed | OtherFailure

record environment =
  read_file :: "string \<Rightarrow> read_result"
  base_dir_of :: "string \<Rightarrow> string"
  path_join :: "string \<Rightarrow> string \<Rightarrow> string"
  path_exists :: "string \<Rightarrow> bool"
  urlparse :: "string \<Rightarrow> (string \<times> string) option"
  requests_head :: "string \<Rightarrow> head_result"

definition str_int :: "int \<Rightarrow> string" where
  "str_int i = (if i < 0 then CHR ''-'' # str_nat (nat (- i)) else str_nat (nat i))"

section \<open>Link/Reference Checker: \<^verbatim>\<open>validate_links\<close> and \<^verbatim>\<open>_validate_url\<close>\<close>

text \<open>
  \<^verbatim>\<open>\[([^\]]*)\]\(([^)]*)\)\<close> tried at the head of \<open>s\<close>: groups 1, 2 and 0, and the length
  of the match.
\<close>

definition link_at :: "string \<Rightarrow> ((string \<times> string \<times> string) \<times> nat) option" where
  "link_at s =
     (case bracketed (CHR ''['') (CHR '']'') s of
        None \<Rightarrow> None
      | Some (text, r) \<Rightarrow>
          (case bracketed (CHR ''('') (CHR '')'') r of
             None \<Rightarrow> None
           | Some (url, r') \<Rightarrow>
               (let whole = ''['' @ text @ '']('' @ url @ '')''
                in Some ((text, url, whole), length whole))))"

text \<open>\<^verbatim>\<open>\[([^\]]+)\]\[([^\]]*)\]\<close> tried at the head of \<open>s\<close>.\<close>

definition ref_link_at :: "string \<Rightarrow> ((string \<times> string \<times> string) \<times> nat) option" where
  "ref_link_at s =
     (case bracketed (CHR ''['') (CHR '']'') s of
        None \<Rightarrow> None
      | Some (text, r) \<Rightarrow>
          if text = [] then None
          else (case bracketed (CHR ''['') (CHR '']'') r of
                  None \<Rightarrow> None
                | Some (ref, r') \<Rightarrow>
                    (let whole = ''['' @ text @ ''][''  @ ref @ '']''
                     in Some ((text, ref, whole), length whole))))"

text \<open>
  \<^verbatim>\<open>^\[([^\]]+)\]:\s*(.+)$\<close>: groups 1 and 2. Without the MULTILINE flag the pattern
  matches at position 0 only, so \<^verbatim>\<open>finditer\<close> yields at most this one match.
\<close>

definition ref_def_match :: "string \<Rightarrow> (string \<times> string) option" where
  "ref_def_match line =
     (case bracketed (CHR ''['') (CHR '']'') line of
        None \<Rightarrow> None
      | Some (rid, r) \<Rightarrow>
          if rid = [] then None
          else (case r of
                  [] \<Rightarrow> None
                | c # r1 \<Rightarrow>
                    if c = CHR '':'' then
                      (case spaces_then dots_plus 0 r1 of
                         None \<Rightarrow> None
                       | Some url \<Rightarrow> Some (rid, url))
                    else None))"

text \<open>First pass: the dictionary \<^verbatim>\<open>reference_definitions\<close>.\<close>

fun collect_definitions ::
  "nat \<Rightarrow> (string \<rightharpoonup> nat \<times> string) \<Rightarrow> string list \<Rightarrow> (string \<rightharpoonup> nat \<times> string)" where
  "collect_definitions i defs [] = defs"
| "collect_definitions i defs (line # rest) =
     collect_definitions (Suc i)
       (case ref_def_match line of
          None \<Rightarrow> defs
        | Some (rid, url) \<Rightarrow> defs(lower rid \<mapsto> (i, url)))
       rest"

definition reference_definitions :: "string list \<Rightarrow> (string \<rightharpoonup> nat \<times> string)" where
  "reference_definitions lines = collect_definitions 1 Map.empty lines"

definition external_schemes :: "string list" where
  "external_schemes = [''http://'', ''https://'', ''mailto:'', ''tel:'']"

definition validate_url ::
  "environment \<Rightarrow> string \<Rightarrow> nat \<Rightarrow> string \<Rightarrow> string \<Rightarrow> ValidationIssue list" where
  "validate_url env base_dir line_num url original =
     (if startswith url ''#'' then []
      else if \<not> list_ex (startswith url) external_schemes then
        (let full_path = path_join env base_dir (hd (split_char (CHR ''#'') url))
         in if \<not> path_exists env full_path
            then [\<lparr>line_number = line_num, issue_type = ''broken_local_link'',
                   severity = ''error'', description = ''Local file not found: '' @ url,
                   original_text = original,
                   suggested_fix = ''Verify file exists at: '' @ full_path\<rparr>]
            else [])
      else
        (case urlparse env url of
           None \<Rightarrow> []
         | Some (scheme, netloc) \<Rightarrow>
             if scheme = [] \<or> netloc = []
             then [\<lparr>line_number = line_num, issue_type = ''invalid_url_format'',
                    severity = ''error'', description = ''Invalid URL format: '' @ url,
                    original_text = original,
                    suggested_fix = ''Use full URL with scheme: https://'' @ url\<rparr>]
             else (case requests_head env url of
                     Response status_code \<Rightarrow>
                       if 400 \<le> status_code
                       then [\<lparr>line_number = line_num, issue_type = ''broken_external_link'',
                              severity = ''error'',
                              description = ''Broken link (HTTP '' @ str_int status_code @
                                            ''): '' @ url,
                              original_text = original,
                              suggested_fix = ''Update URL or remove the link''\<rparr>]
                       else []
                   | Timeout \<Rightarrow>
                       [\<lparr>line_number = line_num, issue_type = ''link_timeout'',
                         severity = ''warning'', description = ''Link timed out: '' @ url,
                         original_text = original,
                         suggested_fix = ''Verify URL is accessible''\<rparr>]
                   | RequestFailed \<Rightarrow> []
                   | OtherFailure \<Rightarrow> [])))"

definition inline_link_issues ::
  "environment \<Rightarrow> string \<Rightarrow> nat \<Rightarrow> string \<times> string \<times> string \<Rightarrow> ValidationIssue list" where
  "inline_link_issues env base_dir i m =
     (case m of (link_text, g2, whole) \<Rightarrow>
        (let url = strip g2
         in (if link_text = []
             then [\<lparr>line_number = i, issue_type = ''empty_link_text'', severity = ''warning'',
                    description = ''Empty link text'', original_text = whole,
                    suggested_fix = ''[descriptive text]('' @ url @ '')''\<rparr>]
             else []) @
            (if url = []
             then [\<lparr>line_number = i, issue_type = ''empty_url'', severity = ''error'',
                    description = ''Empty URL in link'', original_text = whole,
                    suggested_fix = ''['' @ link_text @ ''](https://example.com)''\<rparr>]
             else validate_url env base_dir i url whole)))"

definition usage_ref_id :: "string \<times> string \<times> string \<Rightarrow> string" where
  "usage_ref_id m = (case m of (text, ref, whole) \<Rightarrow> if ref \<noteq> [] then lower ref else lower text)"

definition undefined_reference_issue :: "nat \<Rightarrow> string \<times> string \<times> string \<Rightarrow> ValidationIssue" where
  "undefined_reference_issue i m =
     \<lparr>line_number = i, issue_type = ''undefined_reference'', severity = ''error'',
      description = ''Undefined link reference: ['' @ usage_ref_id m @ '']'',
      original_text = snd (snd m),
      suggested_fix = ''Add reference definition: ['' @ usage_ref_id m @
                      '']: https://example.com''\<rparr>"

definition reference_link_issues ::
  "(string \<rightharpoonup> nat \<times> string) \<Rightarrow> nat \<Rightarrow> string \<times> string \<times> string \<Rightarrow> ValidationIssue list" where
  "reference_link_issues defs i m =
     (if defs (usage_ref_id m) = None then [undefined_reference_issue i m] else [])"

text \<open>The body of the second pass, for line \<open>i\<close>.\<close>

definition link_line_issues ::
  "environment \<Rightarrow> string \<Rightarrow> (string \<rightharpoonup> nat \<times> string) \<Rightarrow> nat \<times> string \<Rightarrow> ValidationIssue list" where
  "link_line_issues env base_dir defs il =
     (case il of (i, line) \<Rightarrow>
        concat (map (\<lambda>(pos, m). inline_link_issues env base_dir i m) (finditer link_at line)) @
        concat (map (\<lambda>(pos, m). reference_link_issues defs i m) (finditer ref_link_at line)))"

definition validate_links :: "environment \<Rightarrow> string \<Rightarrow> string list \<Rightarrow> ValidationIssue list" where
  "validate_links env base_dir lines =
     (let defs = reference_definitions lines
      in concat (map (link_line_issues env base_dir defs) (enumerate 1 lines)))"

section \<open>List Checker: \<^verbatim>\<open>validate_lists\<close>\<close>

text \<open>
  \<^verbatim>\<open>^(\s*)([-*+]|\d+[.)])\s+(.*)$\<close>: groups 1, 2 and 3. The indentation and the digits
  are taken whole, since the marker starts with no white space and ends with no digit.
\<close>

definition marker_at :: "string \<Rightarrow> (string \<times> string) option" where
  "marker_at r =
     (case r of
        [] \<Rightarrow> None
      | c # cs \<Rightarrow>
          if c = CHR ''-'' \<or> c = CHR ''*'' \<or> c = CHR ''+'' then Some ([c], cs)
          else (let ds = takeWhile isdigit r
                in if ds = [] then None
                   else (case dropWhile isdigit r of
                           [] \<Rightarrow> None
                         | d # r' \<Rightarrow>
                             if d = CHR ''.'' \<or> d = CHR '')'' then Some (ds @ [d], r')
                             else None)))"

definition list_item_match :: "string \<Rightarrow> (string \<times> string \<times> string) option" where
  "list_item_match line =
     (case marker_at (dropWhile isspace line) of
        None \<Rightarrow> None
      | Some (marker, r) \<Rightarrow>
          (case spaces_then dots_to_end 1 r of
             None \<Rightarrow> None
           | Some content \<Rightarrow> Some (takeWhile isspace line, marker, content)))"

definition list_line_issues :: "nat \<Rightarrow> bool \<Rightarrow> string \<Rightarrow> ValidationIssue list" where
  "list_line_issues i prev_was_list line =
     (case list_item_match line of
        None \<Rightarrow> []
      | Some (g1, marker, content) \<Rightarrow>
          (let indent = length g1
           in (if prev_was_list \<and> 0 < indent \<and> indent mod 2 \<noteq> 0 \<and> indent mod 4 \<noteq> 0
               then [\<lparr>line_number = i, issue_type = ''inconsistent_indent'', severity = ''info'',
                      description = ''Non-standard list indentation (use 2 or 4 spaces)'',
                      original_text = line,
                      suggested_fix = concat (replicate (indent div 2) ''  '') @ marker @
                                      '' '' @ content\<rparr>]
               else []) @
              (if strip content = []
               then [\<lparr>line_number = i, issue_type = ''empty_list_item'', severity = ''warning'',
                      description = ''Empty list item'', original_text = line,
                      suggested_fix = ''Add content or remove empty item''\<rparr>]
               else [])))"

fun lists_loop :: "nat \<Rightarrow> int \<Rightarrow> bool \<Rightarrow> string list \<Rightarrow> ValidationIssue list" where
  "lists_loop i prev_indent prev_was_list [] = []"
| "lists_loop i prev_indent prev_was_list (line # rest) =
     list_line_issues i prev_was_list line @
     (case list_item_match line of
        Some (g1, marker, content) \<Rightarrow> lists_loop (Suc i) (int (length g1)) True rest
      | None \<Rightarrow>
          lists_loop (Suc i) prev_indent (if strip line \<noteq> [] then False else prev_was_list) rest)"

definition validate_lists :: "string list \<Rightarrow> ValidationIssue list" where
  "validate_lists lines = lists_loop 1 (- 1) False lines"

section \<open>Image Checker: \<^verbatim>\<open>validate_images\<close>\<close>

text \<open>\<^verbatim>\<open>!\[([^\]]*)\]\(([^)]*)\)\<close> tried at the head of \<open>s\<close>.\<close>

definition image_at :: "string \<Rightarrow> ((string \<times> string \<times> string) \<times> nat) option" where
  "image_at s =
     (case s of
        [] \<Rightarrow> None
      | c # r \<Rightarrow>
          if c = CHR ''!'' then
            (case link_at r of
               None \<Rightarrow> None
             | Some ((alt_text, url, whole), n) \<Rightarrow> Some ((alt_text, url, CHR ''!'' # whole), Suc n))
          else None)"

definition image_schemes :: "string list" where
  "image_schemes = [''http://'', ''https://'', ''data:'']"

definition image_issues ::
  "environment \<Rightarrow> string \<Rightarrow> nat \<Rightarrow> string \<times> string \<times> string \<Rightarrow> ValidationIssue list" where
  "image_issues env base_dir i m =
     (case m of (alt_text, g2, whole) \<Rightarrow>
        (let url = strip g2
         in (if alt_text = []
             then [\<lparr>line_number = i, issue_type = ''missing_alt_text'', severity = ''warning'',
                    description = ''Image missing alt text (accessibility issue)'',
                    original_text = whole,
                    suggested_fix = ''![descriptive alt text]('' @ url @ '')''\<rparr>]
             else []) @
            (if url = []
             then [\<lparr>line_number = i, issue_type = ''empty_image_url'', severity = ''error'',
                    description = ''Empty image URL'', original_text = whole,
                    suggested_fix = ''!['' @ alt_text @ ''](path/to/image.png)''\<rparr>]
             else if \<not> list_ex (startswith url) image_schemes then
               (let img_path = path_join env base_dir url
                in if \<not> path_exists env img_path
                   then [\<lparr>line_number = i, issue_type = ''missing_image'', severity = ''error'',
                          description = ''Image file not found: '' @ url,
                          original_text = whole,
                          suggested_fix = ''Add image at: '' @ img_path\<rparr>]
                   else [])
             else [])))"

definition image_line_issues ::
  "environment \<Rightarrow> string \<Rightarrow> nat \<times> string \<Rightarrow> ValidationIssue list" where
  "image_line_issues env base_dir il =
     (case il of (i, line) \<Rightarrow>
        concat (map (\<lambda>(pos, m). image_issues env base_dir i m) (finditer image_at line)))"

definition validate_images :: "environment \<Rightarrow> string \<Rightarrow> string list \<Rightarrow> ValidationIssue list" where
  "validate_images env base_dir lines =
     concat (map (image_line_issues env base_dir) (enumerate 1 lines))"

section \<open>Emphasis Checker: \<^verbatim>\<open>validate_emphasis\<close>\<close>

text \<open>
  \<^verbatim>\<open>re.sub(r'`[^`]+`', '', line)\<close>: \<open>code_span_at\<close> tries the pattern at the head of \<open>s\<close>
  and gives the length of the match; \<open>remove_spans\<close> drops the matches, left to right.
\<close>

definition code_span_at :: "string \<Rightarrow> nat option" where
  "code_span_at s =
     (case bracketed (CHR 0x60) (CHR 0x60) s of
        None \<Rightarrow> None
      | Some (body, r) \<Rightarrow> if body = [] then None else Some (length body + 2))"

fun remove_spans :: "nat \<Rightarrow> string \<Rightarrow> string" where
  "remove_spans k [] = []"
| "remove_spans (Suc k) (c # cs) = remove_spans k cs"
| "remove_spans 0 (c # cs) =
     (case code_span_at (c # cs) of
        None \<Rightarrow> c # remove_spans 0 cs
      | Some n \<Rightarrow> remove_spans (n - 1) cs)"

definition emphasis_line_issues :: "nat \<times> string \<Rightarrow> ValidationIssue list" where
  "emphasis_line_issues il =
     (case il of (i, line) \<Rightarrow>
        if startswith (strip line) [CHR 0x60, CHR 0x60, CHR 0x60] \<or> startswith (strip line) ''~~~''
        then []
        else (let line_without_code = remove_spans 0 line
              in (if int (str_count line_without_code ''**'') mod 2 \<noteq> 0
                  then [\<lparr>line_number = i, issue_type = ''unmatched_bold'', severity = ''warning'',
                         description = ''Possibly unmatched bold markers (**)'',
                         original_text = line,
                         suggested_fix = ''Ensure ** markers are properly paired''\<rparr>]
                  else []) @
                 (if int (str_count line_without_code ''__'') mod 2 \<noteq> 0
                  then [\<lparr>line_number = i, issue_type = ''unmatched_bold'', severity = ''warning'',
                         description = ''Possibly unmatched bold markers (__)'',
                         original_text = line,
                         suggested_fix = ''Ensure __ markers are properly paired''\<rparr>]
                  else [])))"

definition validate_emphasis :: "string list \<Rightarrow> ValidationIssue list" where
  "validate_emphasis lines = concat (map emphasis_line_issues (enumerate 1 lines))"

section \<open>Table Checker: \<^verbatim>\<open>validate_tables\<close>\<close>

record table_state =
  in_table :: bool
  table_start :: nat
  header_cols :: nat

definition initial_table_state :: table_state where
  "initial_table_state = \<lparr>in_table = False, table_start = 0, header_cols = 0\<rparr>"

text \<open>\<^verbatim>\<open>len([c for c in stripped.split('|') if c.strip() or c == ''])\<close>\<close>

definition count_cols :: "string \<Rightarrow> nat" where
  "count_cols stripped =
     length (filter (\<lambda>c. strip c \<noteq> [] \<or> c = []) (split_char (CHR ''|'') stripped))"

text \<open>
  \<^verbatim>\<open>re.match(r'^[\s|:-]+$', stripped)\<close>: a newline is in the class, so the pattern matches
  exactly the non-empty strings of class characters.
\<close>

definition separator_match :: "string \<Rightarrow> bool" where
  "separator_match stripped =
     (stripped \<noteq> [] \<and>
      list_all (\<lambda>c. isspace c \<or> c = CHR ''|'' \<or> c = CHR '':'' \<or> c = CHR ''-'') stripped)"

text \<open>The loop body, for line \<open>i\<close>: the new state and the issues appended.\<close>

definition table_line :: "nat \<Rightarrow> string \<Rightarrow> table_state \<Rightarrow> table_state \<times> ValidationIssue list" where
  "table_line i line st =
     (if CHR ''|'' \<in> set line then
        (let stripped = strip line
         in if startswith stripped ''|'' \<or> endswith stripped ''|'' then
              (let cols = count_cols stripped
               in if \<not> in_table st then
                    (st\<lparr>in_table := True, table_start := i, header_cols := cols\<rparr>, [])
                  else if cols \<noteq> header_cols st \<and> \<not> separator_match stripped then
                    (st, [\<lparr>line_number = i, issue_type = ''table_column_mismatch'',
                           severity = ''error'',
                           description = ''Table has inconsistent columns (expected '' @
                                         str_nat (header_cols st) @ '', found '' @
                                         str_nat cols @ '')'',
                           original_text = line,
                           suggested_fix = ''Adjust to '' @ str_nat (header_cols st) @
                                           '' columns''\<rparr>])
                  else (st, []))
            else (st, []))
      else if in_table st \<and> strip line \<noteq> [] then (st\<lparr>in_table := False\<rparr>, [])
      else (st, []))"

fun tables_loop :: "nat \<Rightarrow> table_state \<Rightarrow> string list \<Rightarrow> table_state \<times> ValidationIssue list" where
  "tables_loop i st [] = (st, [])"
| "tables_loop i st (line # rest) =
     (let (st1, out1) = table_line i line st;
          (st2, out2) = tables_loop (Suc i) st1 rest
      in (st2, out1 @ out2))"

definition validate_tables :: "string list \<Rightarrow> ValidationIssue list" where
  "validate_tables lines = snd (tables_loop 1 initial_table_state lines)"






section \<open>Orchestrator: \<^verbatim>\<open>load_file\<close>, \<^verbatim>\<open>validate_all\<close>, \<^verbatim>\<open>validate_markdown_file\<close>\<close>

text \<open>
  The validator is the one \<^verbatim>\<open>validate_markdown_file\<close> builds: its issue list starts
  empty. \<open>load_file\<close> gives the lines, or the issue list after a failed load.
\<close>

definition load_file :: "environment \<Rightarrow> string \<Rightarrow> ValidationIssue list + string list" where
  "load_file env file_path =
     (case read_file env file_path of
        Loaded content \<Rightarrow> Inr (split_char newline content)
      | FileNotFound \<Rightarrow>
          Inl [\<lparr>line_number = 0, issue_type = ''file_error'', severity = ''error'',
                description = ''File not found: '' @ file_path, original_text = [],
                suggested_fix = ''Verify the file path is correct''\<rparr>]
      | ReadFailed msg \<Rightarrow>
          Inl [\<lparr>line_number = 0, issue_type = ''file_error'', severity = ''error'',
                description = ''Error reading file: '' @ msg, original_text = [],
                suggested_fix = ''Check file permissions and encoding''\<rparr>])"

text \<open>
  The issue sink before the sort: each checker appends to it, in the order of the calls.
  An exception of a checker leaves \<^verbatim>\<open>validate_all\<close> without a result.
\<close>

definition run_checkers ::
  "environment \<Rightarrow> string \<Rightarrow> string list \<Rightarrow> py_error + ValidationIssue list" where
  "run_checkers env base_dir lines =
     (case validate_code_blocks lines of
        Inl e \<Rightarrow> Inl e
      | Inr code_block_issues \<Rightarrow>
          Inr (validate_headers lines @ validate_links env base_dir lines @
               code_block_issues @ validate_lists lines @
               validate_images env base_dir lines @ validate_emphasis lines @
               validate_tables lines))"

text \<open>
  \<^verbatim>\<open>self.issues.sort(key=lambda x: x.line_number)\<close>: Python's sort is stable, and so is
  \<^const>\<open>sort_key\<close>; a list has one stable sorting, so they agree.
\<close>

definition validate_all :: "environment \<Rightarrow> string \<Rightarrow> py_error + ValidationIssue list" where
  "validate_all env file_path =
     (case load_file env file_path of
        Inl issues \<Rightarrow> Inr issues
      | Inr lines \<Rightarrow>
          (case run_checkers env (base_dir_of env file_path) lines of
             Inl e \<Rightarrow> Inl e
           | Inr issues \<Rightarrow> Inr (sort_key line_number issues)))"

record validation_result =
  file_path :: string
  total_issues :: nat
  errors :: nat
  warnings :: nat
  info :: nat
  issues :: "ValidationIssue list"
  summary :: string

definition validate_markdown_file :: "environment \<Rightarrow> string \<Rightarrow> py_error + validation_result" where
  "validate_markdown_file env path =
     (case validate_all env path of
        Inl e \<Rightarrow> Inl e
      | Inr found \<Rightarrow>
          (let n_errors = length (filter (\<lambda>i. severity i = ''error'') found);
               n_warnings = length (filter (\<lambda>i. severity i = ''warning'') found);
               n_info = length (filter (\<lambda>i. severity i = ''info'') found)
           in Inr \<lparr>file_path = path, total_issues = length found, errors = n_errors,
                   warnings = n_warnings, info = n_info, issues = found,
                   summary = ''Found '' @ str_nat n_errors @ '' errors, '' @
                             str_nat n_warnings @ '' warnings, and '' @ str_nat n_info @
                             '' info messages''\<rparr>))"

section \<open>Reference definitions and usages, in the words of the specification\<close>

text \<open>
  The definitions of the identifier \<open>rid\<close> in a document: the line number and the target
  of every line that is a reference definition whose identifier, lowercased, is \<open>rid\<close>, in
  the order of the lines, the first line having the number \<open>i\<close>.
\<close>

definition definitions_from :: "nat \<Rightarrow> string list \<Rightarrow> string \<Rightarrow> (nat \<times> string) list" where
  "definitions_from i lines rid =
     concat (map (\<lambda>(j, line).
                    case ref_def_match line of
                      None \<Rightarrow> []
                    | Some (g1, url) \<Rightarrow> if lower g1 = rid then [(j, url)] else [])
                 (enumerate i lines))"

definition definitions_of :: "string list \<Rightarrow> string \<Rightarrow> (nat \<times> string) list" where
  "definitions_of lines rid = definitions_from 1 lines rid"


section \<open>A sample environment\<close>

text \<open>
  An environment for concrete runs: reading any path gives \<open>r\<close>, the base directory is
  \<open>/docs\<close>, paths are joined with a slash, and only the paths in \<open>present\<close> exist.
\<close>

definition sample_env :: "read_result \<Rightarrow> string list \<Rightarrow> environment" where
  "sample_env r present =
     \<lparr>read_file = (\<lambda>p. r), base_dir_of = (\<lambda>p. ''/docs''),
      path_join = (\<lambda>a b. a @ ''/'' @ b), path_exists = (\<lambda>p. p \<in> set present),
      urlparse = (\<lambda>u. None), requests_head = (\<lambda>u. OtherFailure)\<rparr>"

section \<open>Properties of the Code Block Checker\<close>

lemma code_blocks_loop_append:
  "code_blocks_loop i st (xs @ ys) =
     (let (st1, out1) = code_blocks_loop i st xs;
          (st2, out2) = code_blocks_loop (i + length xs) st1 ys
      in (st2, out1 @ out2))"
  by (induction xs arbitrary: i st) (simp_all add: Let_def split: prod.splits)

lemma fence_state_after_snoc:
  "fence_state_after (ls @ [line]) = fence_step (Suc (length ls)) line (fence_state_after ls)"
  by (simp add: fence_state_after_def code_blocks_loop_append Let_def split: prod.splits)

lemma loop_issues_snoc:
  "loop_issues (ls @ [line]) =
     loop_issues ls @ backtick_issues (Suc (length ls)) line (fence_state_after (ls @ [line]))"
  by (simp add: loop_issues_def fence_state_after_def code_blocks_loop_append Let_def
      split: prod.splits)

lemma fence_chars_not_word: "\<not> is_word (CHR 0x60)" "\<not> is_word (CHR ''~'')"
  by (simp_all add: is_word_def code_point_def)

lemma fence_match_head:
  assumes "s \<noteq> []" and "hd s = c" and "c = CHR 0x60 \<or> c = CHR ''~''"
  shows "fence_match s =
     (if 3 \<le> length (takeWhile (\<lambda>d. d = c) s)
         \<and> at_end (dropWhile is_word (dropWhile (\<lambda>d. d = c) s))
      then Some (c, length (takeWhile (\<lambda>d. d = c) s),
                 takeWhile is_word (dropWhile (\<lambda>d. d = c) s))
      else None)"
  using assms by (cases s) (auto simp: fence_match_def Let_def)

lemma fence_match_run:
  assumes c: "c = CHR 0x60 \<or> c = CHR ''~''" and n: "3 \<le> n" and w: "list_all is_word tag"
  shows "fence_match (replicate n c @ tag) = Some (c, n, tag)"
proof -
  have nw: "\<not> is_word c" using c fence_chars_not_word by auto
  have notc: "\<forall>d \<in> set tag. d \<noteq> c" using w nw by (auto simp: list_all_iff)
  have tw: "takeWhile (\<lambda>d. d = c) (replicate n c @ tag) = replicate n c"
    using notc by (induction n) (cases tag; simp)+
  have dw: "dropWhile (\<lambda>d. d = c) (replicate n c @ tag) = tag"
    using notc by (induction n) (cases tag; simp)+
  have tw2: "takeWhile is_word tag = tag"
    using w by (simp add: list_all_iff)
  have dw2: "dropWhile is_word tag = []"
    using w by (simp add: list_all_iff)
  have ne: "replicate n c @ tag \<noteq> []" and hd: "hd (replicate n c @ tag) = c"
    using n by (cases n; simp)+
  show ?thesis
    by (simp only: fence_match_head[OF ne hd c] tw dw tw2 dw2)
       (simp add: at_end_def n)
qed

lemma spec_fence_line_match:
  assumes "spec_fence_line line c n"
  shows "fence_match (strip line) = Some (c, n, drop n (strip line))"
proof -
  have "strip line = replicate n c @ drop n (strip line)"
    using assms unfolding spec_fence_line_def by (metis append_take_drop_id)
  then show ?thesis
    using assms fence_match_run[of c n "drop n (strip line)"]
    unfolding spec_fence_line_def by simp
qed

lemma last_strip_not_space:
  assumes "strip s \<noteq> []"
  shows "\<not> isspace (last (strip s))"
proof -
  have "rev (strip s) = dropWhile isspace (rev (lstrip s))"
    by (simp add: strip_def rstrip_def)
  moreover have "rev (strip s) \<noteq> []" using assms by simp
  ultimately have "\<not> isspace (hd (rev (strip s)))"
    by (metis hd_dropWhile)
  then show ?thesis using assms by (simp add: hd_rev)
qed

lemma isspace_newline: "isspace newline"
  by (simp add: isspace_def newline_def code_point_def)

lemma fence_match_strip_spec:
  assumes "fence_match (strip line) = Some (c, n, tag)"
  shows "spec_fence_line line c n"
proof -
  let ?s = "strip line"
  have ne: "?s \<noteq> []" using assms by (auto simp: fence_match_def)
  have hdc: "hd ?s = c" and cc: "c = CHR 0x60 \<or> c = CHR ''~''"
    using assms by (cases ?s; auto simp: fence_match_def Let_def split: if_splits)+
  let ?run = "takeWhile (\<lambda>d. d = c) ?s" and ?rest = "dropWhile (\<lambda>d. d = c) ?s"
  from assms fence_match_head[OF ne hdc cc]
  have n: "n = length ?run" and n3: "3 \<le> n" and ae: "at_end (dropWhile is_word ?rest)"
    by (auto split: if_splits)
  have s: "?s = ?run @ ?rest" by simp
  have run: "?run = replicate n c"
    unfolding n by (rule replicate_length_same[symmetric]) (auto dest: set_takeWhileD)
  have "dropWhile is_word ?rest \<noteq> [newline]"
  proof
    assume d: "dropWhile is_word ?rest = [newline]"
    have "?rest = takeWhile is_word ?rest @ dropWhile is_word ?rest" by simp
    with d have "?rest = takeWhile is_word ?rest @ [newline]" by simp
    with s have "?s = (?run @ takeWhile is_word ?rest) @ [newline]" by (metis append_assoc)
    then have "last ?s = newline" by (metis last_snoc)
    with last_strip_not_space[OF ne] isspace_newline show False by simp
  qed
  with ae have "dropWhile is_word ?rest = []" by (simp add: at_end_def)
  then have w: "list_all is_word ?rest" by (simp add: list_all_iff)
  have tk: "take n ?s = replicate n c" and dr: "drop n ?s = ?rest" and len: "n \<le> length ?s"
    using s run n by (metis append_eq_conv_conj, metis append_eq_conv_conj, metis length_append le_add1)
  show ?thesis
    unfolding spec_fence_line_def using cc n3 tk dr len w by simp
qed

lemma not_fence_line_no_match:
  assumes "\<forall>c n. \<not> spec_fence_line line c n"
  shows "fence_match (strip line) = None"
proof (cases "fence_match (strip line)")
  case None
  then show ?thesis .
next
  case (Some a)
  obtain c n tag where "a = (c, n, tag)" by (cases a)
  with Some fence_match_strip_spec[of line c n tag] assms show ?thesis by simp
qed

lemma open_block_stays_open:
  assumes "in_fenced_block (fence_state_after ls)"
    and "fence_char (fence_state_after ls) = Some c0"
    and "\<forall>l \<in> set rest. \<forall>n. spec_fence_line l c0 n \<longrightarrow> n < fence_count (fence_state_after ls)"
  shows "fence_state_after (ls @ rest) = fence_state_after ls"
  using assms(3)
proof (induction rest rule: rev_induct)
  case Nil
  then show ?case by simp
next
  case (snoc l rest)
  then have ih: "fence_state_after (ls @ rest) = fence_state_after ls"
    and l: "\<forall>n. spec_fence_line l c0 n \<longrightarrow> n < fence_count (fence_state_after ls)"
    by simp_all
  have "fence_state_after ((ls @ rest) @ [l]) =
      fence_step (Suc (length (ls @ rest))) l (fence_state_after ls)"
    unfolding fence_state_after_snoc ih ..
  also have "\<dots> = fence_state_after ls"
  proof (cases "fence_match (strip l)")
    case None
    then show ?thesis by (simp add: fence_step_def)
  next
    case (Some a)
    obtain c n tag where a: "a = (c, n, tag)" by (cases a)
    from Some a have "spec_fence_line l c n" by (simp add: fence_match_strip_spec)
    with l have "c = c0 \<longrightarrow> n < fence_count (fence_state_after ls)" by blast
    then show ?thesis
      using Some a assms(1,2) by (auto simp: fence_step_def)
  qed
  finally show ?case by simp
qed

text \<open>
  Claim C1. The fence state after one more line \<open>line\<close> that follows the scanned lines
  \<open>ls\<close>. If \<open>line\<close> is a fence line of character \<open>c\<close> and count \<open>n\<close>: while closed, it opens
  a block and records the line number, \<open>c\<close> and \<open>n\<close>; while open, it closes the block if
  and only if \<open>c\<close> is the opening character and \<open>n\<close> is at least the opening count;
  closing clears the character and keeps the rest; a fence line that does not close
  leaves the state as it is. If \<open>line\<close> is no fence line, the state stays as it is. So an
  open block of character \<open>c\<close> stays open, with its start line and count, over any lines
  \<open>rest\<close> among which no fence line of character \<open>c\<close> reaches the opening count: four
  backticks are closed by four or five backticks, not by three, and backticks are never
  closed by tildes, whatever lines lie between.
\<close>

theorem fence_state_transitions:
  "(spec_fence_line line c n \<longrightarrow>
      (\<not> in_fenced_block (fence_state_after ls) \<longrightarrow>
         fence_state_after (ls @ [line]) =
           (fence_state_after ls)\<lparr>in_fenced_block := True, block_start_line := Suc (length ls),
              fence_char := Some c, fence_count := n\<rparr>) \<and>
      (in_fenced_block (fence_state_after ls) \<longrightarrow>
         (\<not> in_fenced_block (fence_state_after (ls @ [line])) \<longleftrightarrow>
            fence_char (fence_state_after ls) = Some c \<and> fence_count (fence_state_after ls) \<le> n)) \<and>
      (in_fenced_block (fence_state_after ls) \<and> fence_char (fence_state_after ls) = Some c \<and>
         fence_count (fence_state_after ls) \<le> n \<longrightarrow>
         fence_state_after (ls @ [line]) =
           (fence_state_after ls)\<lparr>in_fenced_block := False, fence_char := None\<rparr>) \<and>
      (in_fenced_block (fence_state_after ls) \<and>
         \<not> (fence_char (fence_state_after ls) = Some c \<and> fence_count (fence_state_after ls) \<le> n) \<longrightarrow>
         fence_state_after (ls @ [line]) = fence_state_after ls)) \<and>
   ((\<forall>c n. \<not> spec_fence_line line c n) \<longrightarrow>
      fence_state_after (ls @ [line]) = fence_state_after ls) \<and>
   (in_fenced_block (fence_state_after ls) \<and> fence_char (fence_state_after ls) = Some c \<and>
      (\<forall>l \<in> set rest. \<forall>k. spec_fence_line l c k \<longrightarrow> k < fence_count (fence_state_after ls)) \<longrightarrow>
      fence_state_after (ls @ rest) = fence_state_after ls)"
proof (intro conjI impI)
  assume "in_fenced_block (fence_state_after ls) \<and> fence_char (fence_state_after ls) = Some c \<and>
      (\<forall>l \<in> set rest. \<forall>k. spec_fence_line l c k \<longrightarrow> k < fence_count (fence_state_after ls))"
  then show "fence_state_after (ls @ rest) = fence_state_after ls"
    using open_block_stays_open[of ls c rest] by blast
next
  assume nf: "\<forall>c n. \<not> spec_fence_line line c n"
  show "fence_state_after (ls @ [line]) = fence_state_after ls"
    using not_fence_line_no_match[OF nf] by (simp add: fence_state_after_snoc fence_step_def)
next
  assume f: "spec_fence_line line c n"
  note m = spec_fence_line_match[OF f]
  {
    assume "\<not> in_fenced_block (fence_state_after ls)"
    then show "fence_state_after (ls @ [line]) =
           (fence_state_after ls)\<lparr>in_fenced_block := True, block_start_line := Suc (length ls),
              fence_char := Some c, fence_count := n\<rparr>"
      using m by (simp add: fence_state_after_snoc fence_step_def)
  next
    assume "in_fenced_block (fence_state_after ls)"
    then show "(\<not> in_fenced_block (fence_state_after (ls @ [line]))) =
            (fence_char (fence_state_after ls) = Some c \<and> fence_count (fence_state_after ls) \<le> n)"
      using m by (auto simp: fence_state_after_snoc fence_step_def)
  next
    assume "in_fenced_block (fence_state_after ls) \<and> fence_char (fence_state_after ls) = Some c \<and>
         fence_count (fence_state_after ls) \<le> n"
    then show "fence_state_after (ls @ [line]) =
           (fence_state_after ls)\<lparr>in_fenced_block := False, fence_char := None\<rparr>"
      using m by (simp add: fence_state_after_snoc fence_step_def)
  next
    assume "in_fenced_block (fence_state_after ls) \<and>
         \<not> (fence_char (fence_state_after ls) = Some c \<and> fence_count (fence_state_after ls) \<le> n)"
    then show "fence_state_after (ls @ [line]) = fence_state_after ls"
      using m by (auto simp: fence_state_after_snoc fence_step_def)
  }
qed

theorem fence_state_transitions_witness:
  "spec_fence_line ''```'' (CHR 0x60) 3 \<and> spec_fence_line ''  ~~~~py '' (CHR ''~'') 4 \<and>
   (\<forall>c n. \<not> spec_fence_line ''x = 1'' c n) \<and>
   fence_state_after ([] @ [''```'']) =
     \<lparr>in_fenced_block = True, block_start_line = 1, fence_char = Some (CHR 0x60), fence_count = 3\<rparr> \<and>
   fence_state_after ([[CHR 0x60, CHR 0x60, CHR 0x60, CHR 0x60]] @ [''x = 1'']) =
     \<lparr>in_fenced_block = True, block_start_line = 1, fence_char = Some (CHR 0x60), fence_count = 4\<rparr> \<and>
   in_fenced_block (fence_state_after ([[CHR 0x60, CHR 0x60, CHR 0x60, CHR 0x60], ''x = 1''] @ [''```''])) \<and>
   in_fenced_block (fence_state_after ([''```''] @ [''  ~~~~py ''])) \<and>
   \<not> in_fenced_block (fence_state_after ([''```''] @ [''```''])) \<and>
   fence_state_after ([[CHR 0x60, CHR 0x60, CHR 0x60, CHR 0x60]] @ [''x = 1'', ''```'', [], ''~~~~'', ''y'']) =
     \<lparr>in_fenced_block = True, block_start_line = 1, fence_char = Some (CHR 0x60), fence_count = 4\<rparr> \<and>
   \<not> in_fenced_block (fence_state_after
     [[CHR 0x60, CHR 0x60, CHR 0x60, CHR 0x60], ''x = 1'', ''```'', [],
      [CHR 0x60, CHR 0x60, CHR 0x60, CHR 0x60]]) \<and>
   \<not> in_fenced_block (fence_state_after
     [[CHR 0x60, CHR 0x60, CHR 0x60, CHR 0x60], ''x = 1'', ''```'', [],
      [CHR 0x60, CHR 0x60, CHR 0x60, CHR 0x60, CHR 0x60]])"
proof -
  let ?four = "[CHR 0x60, CHR 0x60, CHR 0x60, CHR 0x60]"
  let ?open4 = "\<lparr>in_fenced_block = True, block_start_line = 1, fence_char = Some (CHR 0x60),
     fence_count = 4\<rparr>"
  let ?open3 = "\<lparr>in_fenced_block = True, block_start_line = 1, fence_char = Some (CHR 0x60),
     fence_count = 3\<rparr>"
  have h3: "spec_fence_line ''```'' (CHR 0x60) 3" by code_simp
  have h4: "spec_fence_line ''  ~~~~py '' (CHR ''~'') 4" by code_simp
  have nx: "fence_match (strip ''x = 1'') = None" by code_simp
  have ne: "fence_match (strip []) = None" by code_simp
  have ny: "fence_match (strip ''y'') = None" by code_simp
  have m3: "fence_match (strip ''```'') = Some (CHR 0x60, 3, [])" by code_simp
  have mt: "fence_match (strip ''~~~~'') = Some (CHR ''~'', 4, [])" by code_simp
  have hn: "\<forall>c n. \<not> spec_fence_line ''x = 1'' c n"
    using spec_fence_line_match[of "''x = 1''"] nx by auto
  have e: "fence_state_after [] = initial_fence_state"
    by (simp add: fence_state_after_def)
  have s4: "fence_state_after [?four] = ?open4" by code_simp
  have s3: "fence_state_after [''```''] = ?open3" by code_simp
  have a1: "fence_state_after ([] @ [''```'']) = ?open3"
    using fence_state_transitions[of "''```''" "CHR 0x60" 3 "[]" "[]",
        THEN conjunct1, THEN mp, OF h3, THEN conjunct1]
    by (simp add: e initial_fence_state_def)
  have a2: "fence_state_after ([?four] @ [''x = 1'']) = ?open4"
    using fence_state_transitions[of "''x = 1''" "CHR 0x60" 3 "[?four]" "[]",
        THEN conjunct2, THEN conjunct1, THEN mp, OF hn]
    by (simp only: s4)
  have a3: "in_fenced_block (fence_state_after ([?four, ''x = 1''] @ [''```'']))"
    using fence_state_transitions[of "''```''" "CHR 0x60" 3 "[?four, ''x = 1'']" "[]",
        THEN conjunct1, THEN mp, OF h3, THEN conjunct2, THEN conjunct1] a2
    by simp
  have a4: "in_fenced_block (fence_state_after ([''```''] @ [''  ~~~~py '']))"
    using fence_state_transitions[of "''  ~~~~py ''" "CHR ''~''" 4 "[''```'']" "[]",
        THEN conjunct1, THEN mp, OF h4, THEN conjunct2, THEN conjunct1] s3
    by simp
  have a5: "\<not> in_fenced_block (fence_state_after ([''```''] @ [''```'']))"
    using fence_state_transitions[of "''```''" "CHR 0x60" 3 "[''```'']" "[]",
        THEN conjunct1, THEN mp, OF h3, THEN conjunct2, THEN conjunct1] s3
    by simp
  have k3: "\<forall>k. spec_fence_line ''```'' (CHR 0x60) k \<longrightarrow> k < 4"
  proof (intro allI impI)
    fix k assume "spec_fence_line ''```'' (CHR 0x60) k"
    from spec_fence_line_match[OF this] m3 have "k = 3" by simp
    then show "k < 4" by simp
  qed
  have kx: "\<forall>k. \<not> spec_fence_line ''x = 1'' (CHR 0x60) k"
    using spec_fence_line_match[of "''x = 1''" "CHR 0x60"] nx by auto
  have ke: "\<forall>k. \<not> spec_fence_line [] (CHR 0x60) k"
    using spec_fence_line_match[of "[]" "CHR 0x60"] ne by auto
  have ky: "\<forall>k. \<not> spec_fence_line ''y'' (CHR 0x60) k"
    using spec_fence_line_match[of "''y''" "CHR 0x60"] ny by auto
  have kt: "\<forall>k. \<not> spec_fence_line ''~~~~'' (CHR 0x60) k"
    using spec_fence_line_match[of "''~~~~''" "CHR 0x60"] mt by auto
  have c4: "fence_count (fence_state_after [?four]) = 4" by (simp only: s4) simp
  have r: "\<forall>l \<in> set [''x = 1'', ''```'', [], ''~~~~'', ''y''].
      \<forall>k. spec_fence_line l (CHR 0x60) k \<longrightarrow> k < fence_count (fence_state_after [?four])"
    unfolding c4 using k3 kx ke ky kt by (simp only: list.set ball_simps) blast
  have b4: "in_fenced_block (fence_state_after [?four]) \<and>
      fence_char (fence_state_after [?four]) = Some (CHR 0x60)"
    by (simp only: s4) simp
  have a6: "fence_state_after ([?four] @ [''x = 1'', ''```'', [], ''~~~~'', ''y'']) = ?open4"
    using fence_state_transitions[of "''```''" "CHR 0x60" 3 "[?four]"
        "[''x = 1'', ''```'', [], ''~~~~'', ''y'']", THEN conjunct2, THEN conjunct2, THEN mp,
        OF conjI[OF conjunct1[OF b4] conjI[OF conjunct2[OF b4] r]]]
    by (simp only: s4)
  have d2: "\<not> in_fenced_block (fence_state_after [?four, ''x = 1'', ''```'', [], ?four])"
    by code_simp
  have d3: "\<not> in_fenced_block (fence_state_after
     [?four, ''x = 1'', ''```'', [], [CHR 0x60, CHR 0x60, CHR 0x60, CHR 0x60, CHR 0x60]])"
    by code_simp
  show ?thesis
    by (intro conjI h3 h4 hn a1 a2 a3 a4 a5 a6 d2 d3)
qed

lemma fence_step_cases:
  "fence_step i line st = st \<or>
   (\<not> in_fenced_block st \<and> (\<exists>c n tag. fence_match (strip line) = Some (c, n, tag) \<and>
      fence_step i line st = st\<lparr>in_fenced_block := True, block_start_line := i,
         fence_char := Some c, fence_count := n\<rparr>)) \<or>
   (in_fenced_block st \<and> \<not> in_fenced_block (fence_step i line st))"
  by (auto simp: fence_step_def split: option.splits)

lemma open_block_invariant:
  "in_fenced_block (fence_state_after ls) \<Longrightarrow>
     (\<exists>c. fence_char (fence_state_after ls) = Some c \<and>
        1 \<le> block_start_line (fence_state_after ls) \<and>
        block_start_line (fence_state_after ls) \<le> length ls \<and>
        spec_fence_line (ls ! (block_start_line (fence_state_after ls) - 1)) c
          (fence_count (fence_state_after ls)) \<and>
        \<not> in_fenced_block
            (fence_state_after (take (block_start_line (fence_state_after ls) - 1) ls)) \<and>
        (\<forall>j. block_start_line (fence_state_after ls) \<le> j \<and> j \<le> length ls \<longrightarrow>
             in_fenced_block (fence_state_after (take j ls))))"
proof (induction ls rule: rev_induct)
  case Nil
  then show ?case by (simp add: fence_state_after_def initial_fence_state_def)
next
  case (snoc line ls)
  let ?st = "fence_state_after ls" and ?st' = "fence_state_after (ls @ [line])"
  have step: "?st' = fence_step (Suc (length ls)) line ?st"
    by (rule fence_state_after_snoc)
  from fence_step_cases[of "Suc (length ls)" line ?st]
  consider (same) "?st' = ?st"
    | (opened) c n tag where "\<not> in_fenced_block ?st"
        "fence_match (strip line) = Some (c, n, tag)"
        "?st' = ?st\<lparr>in_fenced_block := True, block_start_line := Suc (length ls),
           fence_char := Some c, fence_count := n\<rparr>"
    | (closed) "\<not> in_fenced_block ?st'"
    unfolding step by blast
  then show ?case
  proof cases
    case same
    with snoc.prems have op: "in_fenced_block ?st" by simp
    from snoc.IH[OF op] obtain c where c: "fence_char ?st = Some c"
      and lo: "1 \<le> block_start_line ?st" and hi: "block_start_line ?st \<le> length ls"
      and sp: "spec_fence_line (ls ! (block_start_line ?st - 1)) c (fence_count ?st)"
      and before: "\<not> in_fenced_block (fence_state_after (take (block_start_line ?st - 1) ls))"
      and since: "\<forall>j. block_start_line ?st \<le> j \<and> j \<le> length ls \<longrightarrow>
             in_fenced_block (fence_state_after (take j ls))"
      by blast
    have lt: "block_start_line ?st - 1 < length ls" using lo hi by arith
    have nth: "(ls @ [line]) ! (block_start_line ?st - 1) = ls ! (block_start_line ?st - 1)"
      using lt by (simp add: nth_append)
    have tk: "take (block_start_line ?st - 1) (ls @ [line]) = take (block_start_line ?st - 1) ls"
      using lo hi by simp
    have since': "\<forall>j. block_start_line ?st \<le> j \<and> j \<le> length (ls @ [line]) \<longrightarrow>
             in_fenced_block (fence_state_after (take j (ls @ [line])))"
    proof (intro allI impI)
      fix j assume j: "block_start_line ?st \<le> j \<and> j \<le> length (ls @ [line])"
      show "in_fenced_block (fence_state_after (take j (ls @ [line])))"
      proof (cases "j \<le> length ls")
        case True
        then show ?thesis using since j by simp
      next
        case False
        with j have "length (ls @ [line]) \<le> j" by simp
        then have "take j (ls @ [line]) = ls @ [line]" by (rule take_all)
        then show ?thesis using snoc.prems by simp
      qed
    qed
    show ?thesis
      unfolding same using c lo hi sp before since' nth tk by auto
  next
    case opened
    have sp: "spec_fence_line line c n"
      by (rule fence_match_strip_spec[OF opened(2)])
    have since': "\<forall>j. Suc (length ls) \<le> j \<and> j \<le> length (ls @ [line]) \<longrightarrow>
             in_fenced_block (fence_state_after (take j (ls @ [line])))"
    proof (intro allI impI)
      fix j assume j: "Suc (length ls) \<le> j \<and> j \<le> length (ls @ [line])"
      then have "length (ls @ [line]) \<le> j" by simp
      then have "take j (ls @ [line]) = ls @ [line]" by (rule take_all)
      then show "in_fenced_block (fence_state_after (take j (ls @ [line])))"
        using snoc.prems by simp
    qed
    show ?thesis
      unfolding opened(3) using opened(1) sp since' by simp
  next
    case closed
    with snoc.prems show ?thesis by simp
  qed
qed

lemma backtick_issues_type:
  "x \<in> set (backtick_issues i line st) \<Longrightarrow> issue_type x = ''unmatched_backticks''"
  by (auto simp: backtick_issues_def Let_def split: if_splits)

lemma code_blocks_loop_types:
  "x \<in> set (snd (code_blocks_loop i st ls)) \<Longrightarrow> issue_type x = ''unmatched_backticks''"
  by (induction ls arbitrary: i st)
     (auto simp: Let_def split_beta dest: backtick_issues_type)

lemma validate_code_blocks_eq:
  "validate_code_blocks lines =
     (if in_fenced_block (fence_state_after lines) then
        (case py_index lines (int (block_start_line (fence_state_after lines)) - 1) of
           Inl e \<Rightarrow> Inl e
         | Inr opening \<Rightarrow>
             Inr (loop_issues lines @ [unclosed_issue (fence_state_after lines) opening]))
      else Inr (loop_issues lines))"
  unfolding validate_code_blocks_def fence_state_after_def loop_issues_def
  by (simp add: split_beta cong: sum.case_cong)

lemma py_index_in_range:
  "1 \<le> k \<Longrightarrow> k \<le> length xs \<Longrightarrow> py_index xs (int k - 1) = Inr (xs ! (k - 1))"
  by (auto simp: py_index_def nat_diff_distrib')

text \<open>
  Claim C2. When the fence state is open after the last line, \<^verbatim>\<open>validate_code_blocks\<close>
  returns the issues of the loop followed by exactly one \<open>unclosed_code_block\<close> issue of
  severity \<open>error\<close>; the loop itself adds no issue of that type. The issue sits on line
  \<open>k\<close>, the opening fence: the state is closed before line \<open>k\<close>, line \<open>k\<close> is a fence line of
  character \<open>c\<close> and count \<open>n\<close>, and the block is open from line \<open>k\<close> to the end. Its
  \<open>original_text\<close> is line \<open>k\<close> and its suggested fix is a fence of \<open>n\<close> characters \<open>c\<close>.
\<close>

theorem unclosed_code_block_reported:
  assumes "in_fenced_block (fence_state_after lines)"
  shows "\<exists>c n k.
      1 \<le> k \<and> k \<le> length lines \<and>
      \<not> in_fenced_block (fence_state_after (take (k - 1) lines)) \<and>
      spec_fence_line (lines ! (k - 1)) c n \<and>
      (\<forall>j. k \<le> j \<and> j \<le> length lines \<longrightarrow> in_fenced_block (fence_state_after (take j lines))) \<and>
      validate_code_blocks lines =
        Inr (loop_issues lines @
             [\<lparr>line_number = k, issue_type = ''unclosed_code_block'', severity = ''error'',
               description = ''Unclosed fenced code block'',
               original_text = lines ! (k - 1),
               suggested_fix = ''Add closing fence: '' @ replicate n c\<rparr>]) \<and>
      (\<forall>x \<in> set (loop_issues lines). issue_type x \<noteq> ''unclosed_code_block'')"
proof -
  let ?st = "fence_state_after lines"
  from open_block_invariant[OF assms] obtain c where c: "fence_char ?st = Some c"
    and lo: "1 \<le> block_start_line ?st" and hi: "block_start_line ?st \<le> length lines"
    and sp: "spec_fence_line (lines ! (block_start_line ?st - 1)) c (fence_count ?st)"
    and before: "\<not> in_fenced_block (fence_state_after (take (block_start_line ?st - 1) lines))"
    and since: "\<forall>j. block_start_line ?st \<le> j \<and> j \<le> length lines \<longrightarrow>
             in_fenced_block (fence_state_after (take j lines))"
    by blast
  have cc: "c = CHR 0x60 \<or> c = CHR ''~''" using sp by (simp add: spec_fence_line_def)
  have sugg: "(if fence_char ?st = Some (CHR 0x60) then replicate (fence_count ?st) (CHR 0x60)
         else replicate (fence_count ?st) (CHR ''~'')) = replicate (fence_count ?st) c"
    using c cc by auto
  have v: "validate_code_blocks lines =
        Inr (loop_issues lines @
             [\<lparr>line_number = block_start_line ?st, issue_type = ''unclosed_code_block'',
               severity = ''error'', description = ''Unclosed fenced code block'',
               original_text = lines ! (block_start_line ?st - 1),
               suggested_fix = ''Add closing fence: '' @ replicate (fence_count ?st) c\<rparr>])"
    using assms py_index_in_range[OF lo hi] sugg
    by (simp add: validate_code_blocks_eq unclosed_issue_def)
  have ty: "\<forall>x \<in> set (loop_issues lines). issue_type x \<noteq> ''unclosed_code_block''"
    unfolding loop_issues_def by (auto dest: code_blocks_loop_types)
  show ?thesis
    using lo hi before sp since v ty by blast
qed

theorem unclosed_code_block_reported_witness:
  "in_fenced_block (fence_state_after [''text'', '' ~~~~sh'', ''```'', ''ls'']) \<and>
   (\<exists>c n k. validate_code_blocks [''text'', '' ~~~~sh'', ''```'', ''ls''] =
      Inr (loop_issues [''text'', '' ~~~~sh'', ''```'', ''ls''] @
           [\<lparr>line_number = k, issue_type = ''unclosed_code_block'', severity = ''error'',
             description = ''Unclosed fenced code block'',
             original_text = [''text'', '' ~~~~sh'', ''```'', ''ls''] ! (k - 1),
             suggested_fix = ''Add closing fence: '' @ replicate n c\<rparr>])) \<and>
   validate_code_blocks [''text'', '' ~~~~sh'', ''```'', ''ls''] =
     Inr [\<lparr>line_number = 2, issue_type = ''unclosed_code_block'', severity = ''error'',
           description = ''Unclosed fenced code block'', original_text = '' ~~~~sh'',
           suggested_fix = ''Add closing fence: ~~~~''\<rparr>]"
proof -
  have h: "in_fenced_block (fence_state_after [''text'', '' ~~~~sh'', ''```'', ''ls''])"
    by code_simp
  have e: "validate_code_blocks [''text'', '' ~~~~sh'', ''```'', ''ls''] =
     Inr [\<lparr>line_number = 2, issue_type = ''unclosed_code_block'', severity = ''error'',
           description = ''Unclosed fenced code block'', original_text = '' ~~~~sh'',
           suggested_fix = ''Add closing fence: ~~~~''\<rparr>]"
    by code_simp
  from unclosed_code_block_reported[OF h] h e show ?thesis by blast
qed

section \<open>Properties of the Orchestrator\<close>

lemma validate_code_blocks_total:
  "\<exists>out. validate_code_blocks lines = Inr out"
proof (cases "in_fenced_block (fence_state_after lines)")
  case True
  from open_block_invariant[OF True]
  have "1 \<le> block_start_line (fence_state_after lines)"
    and "block_start_line (fence_state_after lines) \<le> length lines"
    by blast+
  from py_index_in_range[OF this] True show ?thesis
    by (simp add: validate_code_blocks_eq)
next
  case False
  then show ?thesis by (simp add: validate_code_blocks_eq)
qed

lemma run_checkers_total:
  "\<exists>cb. validate_code_blocks lines = Inr cb \<and>
     run_checkers env base lines =
       Inr (validate_headers lines @ validate_links env base lines @ cb @
            validate_lists lines @ validate_images env base lines @
            validate_emphasis lines @ validate_tables lines)"
  using validate_code_blocks_total[of lines] by (auto simp: run_checkers_def)

lemma empty_headers: "validate_headers [[]] = []"
  by (simp add: validate_headers_def header_line_issues_def header_match_def)

lemma empty_links: "validate_links env base [[]] = []"
  by (simp add: validate_links_def link_line_issues_def finditer_def)

lemma empty_code_blocks: "validate_code_blocks [[]] = Inr []"
  by (simp add: validate_code_blocks_def initial_fence_state_def fence_step_def strip_def
      lstrip_def rstrip_def fence_match_def backtick_issues_def str_count_def startswith_def)

lemma empty_lists: "validate_lists [[]] = []"
  by (simp add: validate_lists_def list_line_issues_def list_item_match_def marker_at_def)

lemma empty_images: "validate_images env base [[]] = []"
  by (simp add: validate_images_def image_line_issues_def finditer_def)

lemma empty_emphasis: "validate_emphasis [[]] = []"
  by (simp add: validate_emphasis_def emphasis_line_issues_def strip_def lstrip_def rstrip_def
      startswith_def str_count_def)

lemma empty_tables: "validate_tables [[]] = []"
  by (simp add: validate_tables_def table_line_def initial_table_state_def)

text \<open>
  Claim C3. \<^verbatim>\<open>validate_all\<close> always returns a list, and the list is sorted by
  \<open>line_number\<close> in nondecreasing order. When the document loads, the issues of any one
  line number \<open>k\<close> appear in the result exactly as they appear in the sink before the sort,
  which holds the issues of the checkers in the order of the calls: headers, links, code
  blocks, lists, images, emphasis, tables.
\<close>

theorem validate_all_sorted_stable:
  "\<exists>found. validate_all env path = Inr found \<and>
     sorted (map line_number found) \<and>
     (\<forall>lines. load_file env path = Inr lines \<longrightarrow>
        (\<exists>cb. validate_code_blocks lines = Inr cb \<and>
           (\<forall>k. filter (\<lambda>x. line_number x = k) found =
                filter (\<lambda>x. line_number x = k)
                  (validate_headers lines @
                   validate_links env (base_dir_of env path) lines @ cb @
                   validate_lists lines @
                   validate_images env (base_dir_of env path) lines @
                   validate_emphasis lines @ validate_tables lines))))"
proof (cases "load_file env path")
  case (Inl failed)
  then have "validate_all env path = Inr failed" by (simp add: validate_all_def)
  moreover have "sorted (map line_number failed)"
    using Inl by (auto simp: load_file_def split: read_result.splits)
  ultimately show ?thesis using Inl by simp
next
  case (Inr lines)
  from run_checkers_total[of lines env "base_dir_of env path"]
  obtain cb where cb: "validate_code_blocks lines = Inr cb"
    and rc: "run_checkers env (base_dir_of env path) lines =
       Inr (validate_headers lines @ validate_links env (base_dir_of env path) lines @ cb @
            validate_lists lines @ validate_images env (base_dir_of env path) lines @
            validate_emphasis lines @ validate_tables lines)"
    by blast
  let ?sink = "validate_headers lines @ validate_links env (base_dir_of env path) lines @ cb @
            validate_lists lines @ validate_images env (base_dir_of env path) lines @
            validate_emphasis lines @ validate_tables lines"
  have v: "validate_all env path = Inr (sort_key line_number ?sink)"
    using Inr rc by (simp add: validate_all_def)
  have s: "sorted (map line_number (sort_key line_number ?sink))"
    by (rule sorted_sort_key)
  have st: "\<forall>k. filter (\<lambda>x. line_number x = k) (sort_key line_number ?sink) =
                filter (\<lambda>x. line_number x = k) ?sink"
    by (simp only: sort_key_stable) simp
  show ?thesis
    using v s st cb Inr by auto
qed

theorem validate_all_sorted_stable_witness:
  "load_file (sample_env (Loaded (''**a'' @ [newline] @ ''#x **y'')) []) ''doc.md'' =
     Inr [''**a'', ''#x **y''] \<and>
   (\<exists>found. validate_all (sample_env (Loaded (''**a'' @ [newline] @ ''#x **y'')) []) ''doc.md'' =
        Inr found \<and> sorted (map line_number found) \<and>
      map (\<lambda>x. (line_number x, issue_type x)) (filter (\<lambda>x. line_number x = 2) found) =
        [(2, ''header_format''), (2, ''unmatched_bold'')]) \<and>
   validate_all (sample_env (Loaded (''**a'' @ [newline] @ ''#x **y'')) []) ''doc.md'' =
     Inr [\<lparr>line_number = 1, issue_type = ''unmatched_bold'', severity = ''warning'',
           description = ''Possibly unmatched bold markers (**)'', original_text = ''**a'',
           suggested_fix = ''Ensure ** markers are properly paired''\<rparr>,
          \<lparr>line_number = 2, issue_type = ''header_format'', severity = ''warning'',
           description = ''Missing space after header hashes'', original_text = ''#x **y'',
           suggested_fix = ''# x **y''\<rparr>,
          \<lparr>line_number = 2, issue_type = ''unmatched_bold'', severity = ''warning'',
           description = ''Possibly unmatched bold markers (**)'', original_text = ''#x **y'',
           suggested_fix = ''Ensure ** markers are properly paired''\<rparr>]"
proof -
  let ?E = "sample_env (Loaded (''**a'' @ [newline] @ ''#x **y'')) []"
  have l: "load_file ?E ''doc.md'' = Inr [''**a'', ''#x **y'']" by code_simp
  have cb: "validate_code_blocks [''**a'', ''#x **y''] = Inr []" by code_simp
  have sink: "validate_headers [''**a'', ''#x **y''] @
       validate_links ?E (base_dir_of ?E ''doc.md'') [''**a'', ''#x **y''] @ [] @
       validate_lists [''**a'', ''#x **y''] @
       validate_images ?E (base_dir_of ?E ''doc.md'') [''**a'', ''#x **y''] @
       validate_emphasis [''**a'', ''#x **y''] @ validate_tables [''**a'', ''#x **y''] =
     [\<lparr>line_number = 2, issue_type = ''header_format'', severity = ''warning'',
           description = ''Missing space after header hashes'', original_text = ''#x **y'',
           suggested_fix = ''# x **y''\<rparr>,
      \<lparr>line_number = 1, issue_type = ''unmatched_bold'', severity = ''warning'',
           description = ''Possibly unmatched bold markers (**)'', original_text = ''**a'',
           suggested_fix = ''Ensure ** markers are properly paired''\<rparr>,
      \<lparr>line_number = 2, issue_type = ''unmatched_bold'', severity = ''warning'',
           description = ''Possibly unmatched bold markers (**)'', original_text = ''#x **y'',
           suggested_fix = ''Ensure ** markers are properly paired''\<rparr>]"
    by code_simp
  have e: "validate_all ?E ''doc.md'' =
     Inr [\<lparr>line_number = 1, issue_type = ''unmatched_bold'', severity = ''warning'',
           description = ''Possibly unmatched bold markers (**)'', original_text = ''**a'',
           suggested_fix = ''Ensure ** markers are properly paired''\<rparr>,
          \<lparr>line_number = 2, issue_type = ''header_format'', severity = ''warning'',
           description = ''Missing space after header hashes'', original_text = ''#x **y'',
           suggested_fix = ''# x **y''\<rparr>,
          \<lparr>line_number = 2, issue_type = ''unmatched_bold'', severity = ''warning'',
           description = ''Possibly unmatched bold markers (**)'', original_text = ''#x **y'',
           suggested_fix = ''Ensure ** markers are properly paired''\<rparr>]"
    by code_simp
  from validate_all_sorted_stable[of ?E "''doc.md''"] obtain found where
    f: "validate_all ?E ''doc.md'' = Inr found" and s: "sorted (map line_number found)" and
    k: "\<forall>lines. load_file ?E ''doc.md'' = Inr lines \<longrightarrow>
        (\<exists>cb. validate_code_blocks lines = Inr cb \<and>
           (\<forall>k. filter (\<lambda>x. line_number x = k) found =
                filter (\<lambda>x. line_number x = k)
                  (validate_headers lines @
                   validate_links ?E (base_dir_of ?E ''doc.md'') lines @ cb @
                   validate_lists lines @
                   validate_images ?E (base_dir_of ?E ''doc.md'') lines @
                   validate_emphasis lines @ validate_tables lines)))"
    by blast
  from k l cb have "filter (\<lambda>x. line_number x = 2) found =
       filter (\<lambda>x. line_number x = 2)
         (validate_headers [''**a'', ''#x **y''] @
          validate_links ?E (base_dir_of ?E ''doc.md'') [''**a'', ''#x **y''] @ [] @
          validate_lists [''**a'', ''#x **y''] @
          validate_images ?E (base_dir_of ?E ''doc.md'') [''**a'', ''#x **y''] @
          validate_emphasis [''**a'', ''#x **y''] @ validate_tables [''**a'', ''#x **y''])"
    by fastforce
  then have m: "map (\<lambda>x. (line_number x, issue_type x)) (filter (\<lambda>x. line_number x = 2) found) =
        [(2, ''header_format''), (2, ''unmatched_bold'')]"
    by (simp only: sink) simp
  have ex: "\<exists>found. validate_all ?E ''doc.md'' = Inr found \<and> sorted (map line_number found) \<and>
      map (\<lambda>x. (line_number x, issue_type x)) (filter (\<lambda>x. line_number x = 2) found) =
        [(2, ''header_format''), (2, ''unmatched_bold'')]"
    by (rule exI[of _ found]) (rule conjI[OF f conjI[OF s m]])
  show ?thesis
    by (rule conjI[OF l conjI[OF ex e]])
qed

text \<open>
  Claim C8. When the file is missing or reading it fails, \<^verbatim>\<open>validate_all\<close> returns
  exactly one issue, with \<open>line_number\<close> 0, type \<open>file_error\<close> and severity \<open>error\<close>; nothing
  of any checker is in the result, and \<^verbatim>\<open>validate_markdown_file\<close> returns a result that
  counts this one error instead of raising.
\<close>

theorem load_failure_single_issue:
  assumes "read_file env path = FileNotFound \<or> read_file env path = ReadFailed msg"
  shows "\<exists>d f. validate_all env path =
           Inr [\<lparr>line_number = 0, issue_type = ''file_error'', severity = ''error'',
                 description = d, original_text = [], suggested_fix = f\<rparr>] \<and>
         (read_file env path = FileNotFound \<longrightarrow>
            d = ''File not found: '' @ path \<and> f = ''Verify the file path is correct'') \<and>
         (read_file env path = ReadFailed msg \<longrightarrow>
            d = ''Error reading file: '' @ msg \<and> f = ''Check file permissions and encoding'') \<and>
         (\<exists>s. validate_markdown_file env path =
            Inr \<lparr>file_path = path, total_issues = 1, errors = 1, warnings = 0, info = 0,
                 issues = [\<lparr>line_number = 0, issue_type = ''file_error'', severity = ''error'',
                            description = d, original_text = [], suggested_fix = f\<rparr>],
                 summary = s\<rparr>)"
  using assms
  by (auto simp: validate_markdown_file_def validate_all_def load_file_def Let_def)

theorem load_failure_single_issue_witness:
  "read_file (sample_env FileNotFound []) ''gone.md'' = FileNotFound \<and>
   validate_all (sample_env FileNotFound []) ''gone.md'' =
     Inr [\<lparr>line_number = 0, issue_type = ''file_error'', severity = ''error'',
           description = ''File not found: gone.md'', original_text = [],
           suggested_fix = ''Verify the file path is correct''\<rparr>] \<and>
   (\<exists>s. validate_markdown_file (sample_env FileNotFound []) ''gone.md'' =
      Inr \<lparr>file_path = ''gone.md'', total_issues = 1, errors = 1, warnings = 0, info = 0,
            issues = [\<lparr>line_number = 0, issue_type = ''file_error'', severity = ''error'',
                       description = ''File not found: gone.md'', original_text = [],
                       suggested_fix = ''Verify the file path is correct''\<rparr>],
            summary = s\<rparr>)"
proof -
  have h: "read_file (sample_env FileNotFound []) ''gone.md'' = FileNotFound"
    by (simp add: sample_env_def)
  then have "read_file (sample_env FileNotFound []) ''gone.md'' = FileNotFound \<or>
      read_file (sample_env FileNotFound []) ''gone.md'' = ReadFailed []" by simp
  from load_failure_single_issue[OF this] h show ?thesis by auto
qed

text \<open>
  Claim C9. An empty file loads as the single empty line, every checker leaves the sink
  empty on it, and the result has \<open>total_issues\<close> 0 and all three severity counts 0.
\<close>

theorem empty_document_no_issues:
  assumes "read_file env path = Loaded []"
  shows "load_file env path = Inr [[]] \<and>
         validate_all env path = Inr [] \<and>
         validate_markdown_file env path =
           Inr \<lparr>file_path = path, total_issues = 0, errors = 0, warnings = 0, info = 0,
                issues = [],
                summary = ''Found 0 errors, 0 warnings, and 0 info messages''\<rparr>"
proof -
  have l: "load_file env path = Inr [[]]"
    using assms by (simp add: load_file_def)
  have r: "run_checkers env (base_dir_of env path) [[]] = Inr []"
    by (simp add: run_checkers_def empty_headers empty_links empty_code_blocks empty_lists
        empty_images empty_emphasis empty_tables)
  have v: "validate_all env path = Inr []"
    by (simp add: validate_all_def l r)
  have z: "str_nat 0 = ''0''" by code_simp
  show ?thesis
    using l v z by (simp add: validate_markdown_file_def)
qed

theorem empty_document_no_issues_witness:
  "read_file (sample_env (Loaded []) []) ''empty.md'' = Loaded [] \<and>
   validate_markdown_file (sample_env (Loaded []) []) ''empty.md'' =
     Inr \<lparr>file_path = ''empty.md'', total_issues = 0, errors = 0, warnings = 0, info = 0,
          issues = [], summary = ''Found 0 errors, 0 warnings, and 0 info messages''\<rparr>"
proof -
  have h: "read_file (sample_env (Loaded []) []) ''empty.md'' = Loaded []"
    by (simp add: sample_env_def)
  from empty_document_no_issues[OF h] h show ?thesis by simp
qed

section \<open>Properties of the Header Checker\<close>

text \<open>
  Claim C6. A line of seven hashes is matched by the header pattern: six hashes are the
  heading marker and the seventh is the heading text. The checker reports a
  \<open>header_format\<close> warning and a \<open>trailing_hashes\<close> note for it, where the claim expects
  no header issue.
\<close>

theorem seven_hashes_reported:
  "validate_headers [''#######''] =
     [\<lparr>line_number = 1, issue_type = ''header_format'', severity = ''warning'',
       description = ''Missing space after header hashes'', original_text = ''#######'',
       suggested_fix = ''###### #''\<rparr>,
      \<lparr>line_number = 1, issue_type = ''trailing_hashes'', severity = ''info'',
       description = ''Trailing hashes in header (not recommended)'',
       original_text = ''#######'', suggested_fix = ''###### ''\<rparr>]"
  by code_simp

section \<open>Properties of the Link/Reference Checker\<close>

lemma definitions_from_Cons:
  "definitions_from i (line # rest) rid =
     (case ref_def_match line of
        None \<Rightarrow> []
      | Some (g1, url) \<Rightarrow> if lower g1 = rid then [(i, url)] else []) @
     definitions_from (Suc i) rest rid"
  by (simp add: definitions_from_def)

lemma collect_definitions_last:
  "collect_definitions i defs lines rid =
     (if definitions_from i lines rid = [] then defs rid
      else Some (last (definitions_from i lines rid)))"
proof (induction lines arbitrary: i defs)
  case Nil
  then show ?case by (simp add: definitions_from_def)
next
  case (Cons line rest)
  show ?case
    by (simp add: Cons.IH definitions_from_Cons split: option.splits)
qed

lemma reference_definitions_last:
  "reference_definitions lines rid =
     (if definitions_of lines rid = [] then None
      else Some (last (definitions_of lines rid)))"
  by (simp add: reference_definitions_def definitions_of_def collect_definitions_last)

text \<open>
  Claim C5. After the first pass the table maps an identifier to the line number and
  target of the last line that defines it, the comparison being on lowercased
  identifiers; an identifier that no line defines is absent. The second pass reports a
  usage exactly when its identifier has no definition.
\<close>

theorem reference_table_last_definition:
  "reference_definitions lines rid =
     (if definitions_of lines rid = [] then None
      else Some (last (definitions_of lines rid))) \<and>
   (\<forall>m. (reference_link_issues (reference_definitions lines) i m = []) =
          (definitions_of lines (usage_ref_id m) \<noteq> []))"
  by (simp add: reference_definitions_last reference_link_issues_def)

theorem reference_table_last_definition_witness:
  "definitions_of [''[Guide]: first.md'', ''text'', ''[guide]: second.md''] ''guide'' =
     [(1, ''first.md''), (3, ''second.md'')] \<and>
   reference_definitions [''[Guide]: first.md'', ''text'', ''[guide]: second.md''] ''guide'' =
     Some (3, ''second.md'')"
proof -
  have d: "definitions_of [''[Guide]: first.md'', ''text'', ''[guide]: second.md''] ''guide'' =
     [(1, ''first.md''), (3, ''second.md'')]"
    by code_simp
  from reference_table_last_definition[of "[''[Guide]: first.md'', ''text'', ''[guide]: second.md'']"
      "''guide''"] d
  show ?thesis by simp
qed










section \<open>Properties of the Table Checker\<close>






















section \<open>Images seen by two checkers\<close>

lemma scan_from_match:
  "(q, g) \<in> set (scan_from m pos k s) \<Longrightarrow>
     pos \<le> q \<and> q < pos + length s \<and> (\<exists>n. m (drop (q - pos) s) = Some (g, n))"
proof (induction m pos k s rule: scan_from.induct)
  case (1 m pos k)
  then show ?case by simp
next
  case (2 m pos k c cs)
  then have "Suc pos \<le> q \<and> q < Suc pos + length cs \<and>
      (\<exists>n. m (drop (q - Suc pos) cs) = Some (g, n))" by simp
  moreover from this have "q - pos = Suc (q - Suc pos)" by arith
  ultimately show ?case by simp
next
  case (3 m pos c cs)
  show ?case
  proof (cases "m (c # cs)")
    case None
    with 3 have "Suc pos \<le> q \<and> q < Suc pos + length cs \<and>
      (\<exists>n. m (drop (q - Suc pos) cs) = Some (g, n))" by simp
    moreover from this have "q - pos = Suc (q - Suc pos)" by arith
    ultimately show ?thesis by simp
  next
    case (Some a)
    obtain g' n' where a: "a = (g', n')" by (cases a)
    from 3(3) Some a have "(q, g) = (pos, g') \<or> (q, g) \<in> set (scan_from m (Suc pos) (n' - 1) cs)"
      by simp
    then show ?thesis
    proof
      assume "(q, g) = (pos, g')"
      then show ?thesis using Some a by simp
    next
      assume "(q, g) \<in> set (scan_from m (Suc pos) (n' - 1) cs)"
      from 3(2)[OF Some a[symmetric] this]
      have "Suc pos \<le> q \<and> q < Suc pos + length cs \<and>
        (\<exists>n. m (drop (q - Suc pos) cs) = Some (g, n))" .
      moreover from this have "q - pos = Suc (q - Suc pos)" by arith
      ultimately show ?thesis by simp
    qed
  qed
qed

lemma finditer_match:
  "(q, g) \<in> set (finditer m s) \<Longrightarrow> q < length s \<and> (\<exists>n. m (drop q s) = Some (g, n))"
  using scan_from_match[of q g m 0 0 s] by (simp add: finditer_def)

lemma image_at_link_at:
  assumes "image_at (drop p s) = Some ((alt, g2, whole), n)"
  shows "link_at (drop (Suc p) s) = Some ((alt, g2, tl whole), n - 1) \<and> whole = CHR ''!'' # tl whole"
proof -
  from assms obtain r where d: "drop p s = CHR ''!'' # r"
    by (cases "drop p s") (auto simp: image_at_def split: if_splits)
  have r: "drop (Suc p) s = r"
    using d by (metis drop_Suc list.sel(3) tl_drop)
  from assms d show ?thesis
    unfolding r by (auto simp: image_at_def split: option.splits)
qed

lemma enumerate_line:
  "k < length lines \<Longrightarrow> (Suc k, lines ! k) \<in> set (enumerate 1 lines)"
  by (simp add: in_set_enumerate_eq)

lemma concat_map_member:
  assumes "y \<in> set ys" and "x \<in> set (f y)"
  shows "x \<in> set (concat (map f ys))"
  using assms by auto

lemma concat_map_pair_member:
  assumes "(p, m) \<in> set ms" and "x \<in> set (f m)"
  shows "x \<in> set (concat (map (\<lambda>(pos, m). f m) ms))"
  using assms by force

lemma validate_images_member:
  assumes "k < length lines" and "(p, m) \<in> set (finditer image_at (lines ! k))"
    and "x \<in> set (image_issues env base (Suc k) m)"
  shows "x \<in> set (validate_images env base lines)"
proof -
  have "x \<in> set (image_line_issues env base (Suc k, lines ! k))"
    unfolding image_line_issues_def prod.case
    using assms(2,3) by (rule concat_map_pair_member)
  with enumerate_line[OF assms(1)] show ?thesis
    unfolding validate_images_def by (rule concat_map_member)
qed

lemma validate_links_member:
  assumes "k < length lines" and "(p, m) \<in> set (finditer link_at (lines ! k))"
    and "x \<in> set (inline_link_issues env base (Suc k) m)"
  shows "x \<in> set (validate_links env base lines)"
proof -
  have "x \<in> set (concat (map (\<lambda>(pos, m). inline_link_issues env base (Suc k) m)
      (finditer link_at (lines ! k))))"
    using assms(2,3) by (rule concat_map_pair_member)
  then have "x \<in> set (link_line_issues env base (reference_definitions lines) (Suc k, lines ! k))"
    unfolding link_line_issues_def prod.case by simp
  with enumerate_line[OF assms(1)] show ?thesis
    unfolding validate_links_def Let_def by (rule concat_map_member)
qed

lemma image_issues_missing:
  assumes "strip g2 \<noteq> []" and "\<not> list_ex (startswith (strip g2)) image_schemes"
    and "\<not> path_exists env (path_join env base (strip g2))"
  shows "\<lparr>line_number = i, issue_type = ''missing_image'', severity = ''error'',
          description = ''Image file not found: '' @ strip g2, original_text = whole,
          suggested_fix = ''Add image at: '' @ path_join env base (strip g2)\<rparr>
         \<in> set (image_issues env base i (alt, g2, whole))"
  using assms by (simp add: image_issues_def Let_def)

lemma inline_link_issues_broken:
  assumes "strip g2 \<noteq> []" and "\<not> startswith (strip g2) ''#''"
    and "\<not> list_ex (startswith (strip g2)) external_schemes"
    and "\<not> path_exists env (path_join env base (hd (split_char (CHR ''#'') (strip g2))))"
  shows "\<lparr>line_number = i, issue_type = ''broken_local_link'', severity = ''error'',
          description = ''Local file not found: '' @ strip g2, original_text = whole,
          suggested_fix = ''Verify file exists at: '' @
            path_join env base (hd (split_char (CHR ''#'') (strip g2)))\<rparr>
         \<in> set (inline_link_issues env base i (alt, g2, whole))"
  using assms by (simp add: inline_link_issues_def validate_url_def Let_def)

lemma link_at_needs_bracket:
  "c \<noteq> CHR ''['' \<Longrightarrow> link_at (c # cs) = None"
  by (simp add: link_at_def bracketed_def)

lemma scan_link_skip:
  "CHR ''['' \<notin> set (take q s) \<Longrightarrow> q \<le> length s \<Longrightarrow>
     scan_from link_at pos 0 s = scan_from link_at (pos + q) 0 (drop q s)"
proof (induction q arbitrary: s pos)
  case 0
  then show ?case by simp
next
  case (Suc q)
  then obtain c cs where s: "s = c # cs" by (cases s) auto
  with Suc.prems have c: "c \<noteq> CHR ''[''" and cs: "CHR ''['' \<notin> set (take q cs)" "q \<le> length cs"
    by auto
  show ?case
    unfolding s using Suc.IH[OF cs, of "Suc pos"] link_at_needs_bracket[OF c] by simp
qed

text \<open>
  When no opening bracket comes before an image on its line, the scan of the inline-link
  pattern has a match that starts at the bracket of the image.
\<close>

lemma link_scan_reaches_image:
  assumes "(p, alt, g2, whole) \<in> set (finditer image_at line)"
    and "CHR ''['' \<notin> set (take p line)"
  shows "(Suc p, alt, g2, tl whole) \<in> set (finditer link_at line)"
proof -
  from finditer_match[OF assms(1)] obtain n where p: "p < length line"
    and im: "image_at (drop p line) = Some ((alt, g2, whole), n)" by blast
  from image_at_link_at[OF im] have la: "link_at (drop (Suc p) line) = Some ((alt, g2, tl whole), n - 1)"
    by simp
  have bang: "line ! p = CHR ''!''"
    using im p by (cases "drop p line") (auto simp: image_at_def hd_drop_conv_nth[symmetric] split: if_splits)
  have "take (Suc p) line = take p line @ [line ! p]"
    using p by (rule take_Suc_conv_app_nth)
  with assms(2) bang have nb: "CHR ''['' \<notin> set (take (Suc p) line)" by simp
  have le: "Suc p \<le> length line" using p by simp
  from la have ne: "drop (Suc p) line \<noteq> []"
    by (auto simp: link_at_def bracketed_def)
  then obtain c cs where d: "drop (Suc p) line = c # cs" by (cases "drop (Suc p) line") auto
  have "finditer link_at line = scan_from link_at (Suc p) 0 (c # cs)"
    unfolding finditer_def using scan_link_skip[OF nb le, of 0] d by simp
  also have "\<dots> = (Suc p, alt, g2, tl whole) # scan_from link_at (Suc (Suc p)) (n - 1 - 1) cs"
    using la d by simp
  finally show ?thesis by simp
qed

text \<open>
  Claim C10, as stated, fails where an earlier inline-link match on the line extends over
  the image: in \<^verbatim>\<open>[x](#![a](u)\<close> the link pattern takes everything up to the closing
  parenthesis as the target of \<open>[x]\<close>, an anchor, so the Link/Reference Checker reports
  nothing, and the missing image \<open>u\<close> gets the one \<open>missing_image\<close> issue only.
\<close>

theorem image_swallowed_counterexample:
  "finditer image_at ''[x](#![a](u)'' = [(5, ''a'', ''u'', ''![a](u)'')] \<and>
   \<not> path_exists (sample_env (Loaded ''[x](#![a](u)'') [])
        (path_join (sample_env (Loaded ''[x](#![a](u)'') []) ''/docs'' ''u'') \<and>
   validate_all (sample_env (Loaded ''[x](#![a](u)'') []) ''doc.md'' =
     Inr [\<lparr>line_number = 1, issue_type = ''missing_image'', severity = ''error'',
           description = ''Image file not found: u'', original_text = ''![a](u)'',
           suggested_fix = ''Add image at: /docs/u''\<rparr>]"
  by code_simp

text \<open>
  Claim C10, amended. Take an image found by the Image Checker at position \<open>p\<close> of line
  \<open>k + 1\<close>, such that the scan of the inline-link pattern has a match starting at the
  bracket of the image (position \<open>p + 1\<close>). If the trimmed target is not empty, starts with
  no hash and with none of the schemes either checker knows, and neither the target nor
  its part before the first hash exists under the base directory, then the result of
  \<^verbatim>\<open>validate_all\<close> holds both a \<open>broken_local_link\<close> error and a \<open>missing_image\<close> error for
  that line; the link match is the image without its exclamation mark.
\<close>

theorem image_reported_twice:
  assumes "load_file env path = Inr lines"
    and "k < length lines"
    and "(p, alt, g2, whole) \<in> set (finditer image_at (lines ! k))"
    and "(Suc p, m) \<in> set (finditer link_at (lines ! k))"
    and "strip g2 \<noteq> []"
    and "\<not> startswith (strip g2) ''#''"
    and "\<not> list_ex (startswith (strip g2)) external_schemes"
    and "\<not> list_ex (startswith (strip g2)) image_schemes"
    and "\<not> path_exists env (path_join env (base_dir_of env path) (strip g2))"
    and "\<not> path_exists env (path_join env (base_dir_of env path)
                               (hd (split_char (CHR ''#'') (strip g2))))"
  shows "\<exists>found. validate_all env path = Inr found \<and>
     \<lparr>line_number = Suc k, issue_type = ''broken_local_link'', severity = ''error'',
      description = ''Local file not found: '' @ strip g2, original_text = tl whole,
      suggested_fix = ''Verify file exists at: '' @
        path_join env (base_dir_of env path) (hd (split_char (CHR ''#'') (strip g2)))\<rparr>
       \<in> set found \<and>
     \<lparr>line_number = Suc k, issue_type = ''missing_image'', severity = ''error'',
      description = ''Image file not found: '' @ strip g2, original_text = whole,
      suggested_fix = ''Add image at: '' @ path_join env (base_dir_of env path) (strip g2)\<rparr>
       \<in> set found \<and>
     whole = CHR ''!'' # tl whole \<and> m = (alt, g2, tl whole)"
proof -
  let ?base = "base_dir_of env path"
  let ?link = "\<lparr>line_number = Suc k, issue_type = ''broken_local_link'', severity = ''error'',
      description = ''Local file not found: '' @ strip g2, original_text = tl whole,
      suggested_fix = ''Verify file exists at: '' @
        path_join env ?base (hd (split_char (CHR ''#'') (strip g2)))\<rparr>"
  let ?img = "\<lparr>line_number = Suc k, issue_type = ''missing_image'', severity = ''error'',
      description = ''Image file not found: '' @ strip g2, original_text = whole,
      suggested_fix = ''Add image at: '' @ path_join env ?base (strip g2)\<rparr>"
  from finditer_match[OF assms(3)] obtain n where
    im: "image_at (drop p (lines ! k)) = Some ((alt, g2, whole), n)" by blast
  from image_at_link_at[OF im]
  have la: "link_at (drop (Suc p) (lines ! k)) = Some ((alt, g2, tl whole), n - 1)"
    and wh: "whole = CHR ''!'' # tl whole" by simp_all
  from finditer_match[OF assms(4)] obtain n' where
    "link_at (drop (Suc p) (lines ! k)) = Some (m, n')" by blast
  with la have m: "m = (alt, g2, tl whole)" by simp
  have li: "?link \<in> set (validate_links env ?base lines)"
    by (rule validate_links_member[OF assms(2) assms(4)[unfolded m]])
       (rule inline_link_issues_broken[OF assms(5,6,7,10)])
  have ii: "?img \<in> set (validate_images env ?base lines)"
    by (rule validate_images_member[OF assms(2,3)])
       (rule image_issues_missing[OF assms(5,8,9)])
  from run_checkers_total[of lines env ?base] obtain cb where
    rc: "run_checkers env ?base lines =
       Inr (validate_headers lines @ validate_links env ?base lines @ cb @
            validate_lists lines @ validate_images env ?base lines @
            validate_emphasis lines @ validate_tables lines)"
    by blast
  let ?sink = "validate_headers lines @ validate_links env ?base lines @ cb @
            validate_lists lines @ validate_images env ?base lines @
            validate_emphasis lines @ validate_tables lines"
  have v: "validate_all env path = Inr (sort_key line_number ?sink)"
    using assms(1) rc by (simp add: validate_all_def)
  have l2: "?link \<in> set (sort_key line_number ?sink)" using li by simp
  have i2: "?img \<in> set (sort_key line_number ?sink)" using ii by simp
  show ?thesis
    by (rule exI[of _ "sort_key line_number ?sink"])
       (rule conjI[OF v conjI[OF l2 conjI[OF i2 conjI[OF wh m]]]])
qed

theorem image_reported_twice_witness:
  "load_file (sample_env (Loaded ''See ![logo](img/logo.png) here'') []) ''doc.md'' =
     Inr [''See ![logo](img/logo.png) here''] \<and>
   finditer image_at ''See ![logo](img/logo.png) here'' =
     [(4, ''logo'', ''img/logo.png'', ''![logo](img/logo.png)'')] \<and>
   finditer link_at ''See ![logo](img/logo.png) here'' =
     [(5, ''logo'', ''img/logo.png'', ''[logo](img/logo.png)'')] \<and>
   (\<exists>found. validate_all (sample_env (Loaded ''See ![logo](img/logo.png) here'') []) ''doc.md'' =
        Inr found \<and>
      \<lparr>line_number = 1, issue_type = ''broken_local_link'', severity = ''error'',
       description = ''Local file not found: img/logo.png'',
       original_text = ''[logo](img/logo.png)'',
       suggested_fix = ''Verify file exists at: /docs/img/logo.png''\<rparr> \<in> set found \<and>
      \<lparr>line_number = 1, issue_type = ''missing_image'', severity = ''error'',
       description = ''Image file not found: img/logo.png'',
       original_text = ''![logo](img/logo.png)'',
       suggested_fix = ''Add image at: /docs/img/logo.png''\<rparr> \<in> set found) \<and>
   validate_all (sample_env (Loaded ''See ![logo](img/logo.png) here'') []) ''doc.md'' =
     Inr [\<lparr>line_number = 1, issue_type = ''broken_local_link'', severity = ''error'',
           description = ''Local file not found: img/logo.png'',
           original_text = ''[logo](img/logo.png)'',
           suggested_fix = ''Verify file exists at: /docs/img/logo.png''\<rparr>,
          \<lparr>line_number = 1, issue_type = ''missing_image'', severity = ''error'',
           description = ''Image file not found: img/logo.png'',
           original_text = ''![logo](img/logo.png)'',
           suggested_fix = ''Add image at: /docs/img/logo.png''\<rparr>]"
proof -
  let ?line = "''See ![logo](img/logo.png) here''"
  let ?E = "sample_env (Loaded ?line) []"
  have h1: "load_file ?E ''doc.md'' = Inr [?line]" by code_simp
  have h2: "0 < length [?line]" by simp
  have fi: "finditer image_at ?line = [(4, ''logo'', ''img/logo.png'', ''![logo](img/logo.png)'')]"
    by code_simp
  have fl: "finditer link_at ?line = [(5, ''logo'', ''img/logo.png'', ''[logo](img/logo.png)'')]"
    by code_simp
  have h3: "(4, ''logo'', ''img/logo.png'', ''![logo](img/logo.png)'')
      \<in> set (finditer image_at ([?line] ! 0))"
    by (simp only: nth_Cons_0 fi) simp
  have h4: "(Suc 4, (''logo'', ''img/logo.png'', ''[logo](img/logo.png)''))
      \<in> set (finditer link_at ([?line] ! 0))"
    by (simp only: nth_Cons_0 fl) simp
  have st: "strip ''img/logo.png'' = ''img/logo.png''" by code_simp
  have h5: "strip ''img/logo.png'' \<noteq> []" by (simp only: st) simp
  have h6: "\<not> startswith (strip ''img/logo.png'') ''#''" by code_simp
  have h7: "\<not> list_ex (startswith (strip ''img/logo.png'')) external_schemes" by code_simp
  have h8: "\<not> list_ex (startswith (strip ''img/logo.png'')) image_schemes" by code_simp
  have pj: "path_join ?E (base_dir_of ?E ''doc.md'') ''img/logo.png'' = ''/docs/img/logo.png''"
    by code_simp
  have sp: "hd (split_char (CHR ''#'') ''img/logo.png'') = ''img/logo.png''" by code_simp
  have ne: "\<not> path_exists ?E ''/docs/img/logo.png''" by code_simp
  have h9: "\<not> path_exists ?E (path_join ?E (base_dir_of ?E ''doc.md'') (strip ''img/logo.png''))"
    by (simp only: st pj ne) simp
  have h10: "\<not> path_exists ?E (path_join ?E (base_dir_of ?E ''doc.md'')
      (hd (split_char (CHR ''#'') (strip ''img/logo.png''))))"
    by (simp only: st sp pj ne) simp
  have tl: "tl ''![logo](img/logo.png)'' = ''[logo](img/logo.png)''" by simp
  have ap1: "''Local file not found: '' @ ''img/logo.png'' = ''Local file not found: img/logo.png''"
    and ap2: "''Verify file exists at: '' @ ''/docs/img/logo.png'' =
        ''Verify file exists at: /docs/img/logo.png''"
    and ap3: "''Image file not found: '' @ ''img/logo.png'' = ''Image file not found: img/logo.png''"
    and ap4: "''Add image at: '' @ ''/docs/img/logo.png'' = ''Add image at: /docs/img/logo.png''"
    by simp_all
  have one: "Suc 0 = 1" by simp
  note inst = image_reported_twice[OF h1 h2 h3 h4 h5 h6 h7 h8 h9 h10,
      unfolded st sp pj tl ap1 ap2 ap3 ap4 one]
  have ex: "\<exists>found. validate_all ?E ''doc.md'' = Inr found \<and>
      \<lparr>line_number = 1, issue_type = ''broken_local_link'', severity = ''error'',
       description = ''Local file not found: img/logo.png'',
       original_text = ''[logo](img/logo.png)'',
       suggested_fix = ''Verify file exists at: /docs/img/logo.png''\<rparr> \<in> set found \<and>
      \<lparr>line_number = 1, issue_type = ''missing_image'', severity = ''error'',
       description = ''Image file not found: img/logo.png'',
       original_text = ''![logo](img/logo.png)'',
       suggested_fix = ''Add image at: /docs/img/logo.png''\<rparr> \<in> set found"
    using inst by (elim exE conjE) (intro exI conjI, assumption+)
  have e: "validate_all ?E ''doc.md'' =
     Inr [\<lparr>line_number = 1, issue_type = ''broken_local_link'', severity = ''error'',
           description = ''Local file not found: img/logo.png'',
           original_text = ''[logo](img/logo.png)'',
           suggested_fix = ''Verify file exists at: /docs/img/logo.png''\<rparr>,
          \<lparr>line_number = 1, issue_type = ''missing_image'', severity = ''error'',
           description = ''Image file not found: img/logo.png'',
           original_text = ''![logo](img/logo.png)'',
           suggested_fix = ''Add image at: /docs/img/logo.png''\<rparr>]"
    by code_simp
  show ?thesis
    by (rule conjI[OF h1 conjI[OF fi conjI[OF fl conjI[OF ex e]]]])
qed

end
